theory Spec2Isabelle
  imports Main "HOL-Library.Word"
begin

unbundle bit_operations_syntax

section \<open>The wasm code manager: data model\<close>

text \<open>
  The embedding follows \<^verbatim>\<open>src/wasm/wasm-code-manager.h\<close> and
  \<^verbatim>\<open>src/wasm/wasm-code-manager.cc\<close>. Addresses (\<^verbatim>\<open>Address\<close>, a
  \<^verbatim>\<open>uintptr_t\<close>) and sizes (\<^verbatim>\<open>size_t\<close>) are 64-bit words, function
  indices (\<^verbatim>\<open>uint32_t\<close>) are 32-bit words; arithmetic on them wraps as in C++.
  Member names lose their trailing underscore (\<^verbatim>\<open>ranges_\<close> is \<open>ranges\<close>), and
  \<^verbatim>\<open>end\<close>, a keyword here, is \<open>end_addr\<close>. \<^verbatim>\<open>DCHECK\<close>s are debug-only
  assertions: the definitions give the release behaviour, and the theorems name the
  assertions they need as hypotheses.
\<close>

type_synonym Address = "64 word"
type_synonym size_t = "64 word"
type_synonym uint32_t = "32 word"

definition kNullAddress :: Address where
  "kNullAddress = 0"

subsection \<open>AddressRange\<close>

record AddressRange =
  start :: Address
  end_addr :: Address

text \<open>The default constructor \<^verbatim>\<open>AddressRange()\<close>.\<close>

definition AddressRange_default :: AddressRange where
  "AddressRange_default = \<lparr>start = kNullAddress, end_addr = kNullAddress\<rparr>"

text \<open>\<^verbatim>\<open>size()\<close>, \<^verbatim>\<open>is_empty()\<close> and \<^verbatim>\<open>operator bool()\<close>.\<close>

definition range_size :: "AddressRange \<Rightarrow> size_t" where
  "range_size r = end_addr r - start r"

definition is_empty_range :: "AddressRange \<Rightarrow> bool" where
  "is_empty_range r = (start r = end_addr r)"

definition operator_bool :: "AddressRange \<Rightarrow> bool" where
  "operator_bool r = (start r = kNullAddress)"

text \<open>
  The two assertions of the constructor \<^verbatim>\<open>AddressRange(s, e)\<close>:
  \<^verbatim>\<open>DCHECK_LE(start, end)\<close> and
  \<^verbatim>\<open>DCHECK_IMPLIES(start == kNullAddress, end == kNullAddress)\<close>.
\<close>

definition range_ordered :: "AddressRange \<Rightarrow> bool" where
  "range_ordered r = (start r \<le> end_addr r)"

definition range_valid :: "AddressRange \<Rightarrow> bool" where
  "range_valid r = (range_ordered r \<and> (start r = kNullAddress \<longrightarrow> end_addr r = kNullAddress))"

subsection \<open>DisjointAllocationPool\<close>

text \<open>The pool is its member \<^verbatim>\<open>std::list<AddressRange> ranges_\<close>.\<close>

type_synonym DisjointAllocationPool = "AddressRange list"

text \<open>
  \<^verbatim>\<open>DisjointAllocationPool::Merge\<close>. The recursion is the \<^verbatim>\<open>while\<close> loop that
  skips the ranges strictly before the argument \<open>r\<close> (\<^verbatim>\<open>range\<close> in the
  source); the four cases follow in the order of the
  source. The last case carries \<^verbatim>\<open>DCHECK_EQ(dest_it->end, range.start)\<close>.
\<close>

fun Merge :: "AddressRange \<Rightarrow> DisjointAllocationPool \<Rightarrow> DisjointAllocationPool" where
  "Merge r [] = [r]"
| "Merge r (dest # rest) =
     (if end_addr dest < start r then dest # Merge r rest
      else if start dest = end_addr r then dest\<lparr>start := start r\<rparr> # rest
      else if start dest > end_addr r then r # dest # rest
      else (case rest of
              [] \<Rightarrow> [dest\<lparr>end_addr := end_addr r\<rparr>]
            | next_dest # rest' \<Rightarrow>
                if end_addr r = start next_dest
                then dest\<lparr>end_addr := end_addr next_dest\<rparr> # rest'
                else dest\<lparr>end_addr := end_addr r\<rparr> # rest))"

text \<open>
  \<^verbatim>\<open>DisjointAllocationPool::Allocate\<close> returns the allocated range and the pool
  it leaves behind.
\<close>

fun Allocate :: "size_t \<Rightarrow> DisjointAllocationPool \<Rightarrow> AddressRange \<times> DisjointAllocationPool" where
  "Allocate sz [] = (AddressRange_default, [])"
| "Allocate sz (it # rest) =
     (let range_sz = range_size it in
      if sz > range_sz then (case Allocate sz rest of (ret, rest') \<Rightarrow> (ret, it # rest'))
      else (\<lparr>start = start it, end_addr = start it + sz\<rparr>,
            if sz = range_sz then rest else it\<lparr>start := start it + sz\<rparr> # rest))"

text \<open>
  The invariant of the class comment: the ranges are sorted and disjoint, and no range
  ends where the next one starts. \<open>no_empty_ranges\<close> is the second invariant of the
  data model.
\<close>

fun pool_sorted :: "DisjointAllocationPool \<Rightarrow> bool" where
  "pool_sorted [] = True"
| "pool_sorted [r] = range_ordered r"
| "pool_sorted (r # n # rest) = (range_ordered r \<and> end_addr r < start n \<and> pool_sorted (n # rest))"

definition no_empty_ranges :: "DisjointAllocationPool \<Rightarrow> bool" where
  "no_empty_ranges pool = list_all (\<lambda>d. \<not> is_empty_range d) pool"

text \<open>The assumption of \<open>Merge\<close>: the range intersects no range of the pool.\<close>

definition non_overlapping :: "AddressRange \<Rightarrow> DisjointAllocationPool \<Rightarrow> bool" where
  "non_overlapping r pool = list_all (\<lambda>d. end_addr r \<le> start d \<or> end_addr d \<le> start r) pool"

text \<open>The addresses a range and a pool cover.\<close>

definition range_addrs :: "AddressRange \<Rightarrow> Address set" where
  "range_addrs r = {start r ..< end_addr r}"

definition pool_addrs :: "DisjointAllocationPool \<Rightarrow> Address set" where
  "pool_addrs pool = (\<Union>d \<in> set pool. range_addrs d)"

subsection \<open>Build configuration\<close>

text \<open>
  Constants, flags and platform switches that the two files use and other files define.
  They are parameters of the model. \<open>kJumpTableSlotSize\<close> is an \<^verbatim>\<open>int\<close> constant of
  \<^verbatim>\<open>JumpTableAssembler\<close>; in a product with a \<^verbatim>\<open>uint32_t\<close> it is converted to
  \<^verbatim>\<open>unsigned\<close>, so it is kept as a 32-bit word.
\<close>

record Platform =
  kJumpTableSlotSize :: uint32_t
  kCodeAlignment :: size_t
  AllocatePageSize :: size_t
  V8_OS_WIN :: bool
  FLAG_wasm_write_protect_code_memory :: bool
  kRequiresCodeRange :: bool
  kMaxWasmCodeMemory :: size_t

text \<open>
  Modelled from the spec: \<^verbatim>\<open>RoundUp\<close> (\<^verbatim>\<open>src/utils.h\<close>, not among the sources)
  is the spec's \<^verbatim>\<open>round_up(x, m)\<close> for a power of two \<open>m\<close>, computed as V8 does by
  masking \<open>x + m - 1\<close>.
\<close>

definition RoundUp :: "64 word \<Rightarrow> 64 word \<Rightarrow> 64 word" where
  "RoundUp x m = (x + m - 1) AND (- m)"

subsection \<open>WasmCode\<close>

text \<open>
  \<^verbatim>\<open>Vector<byte>\<close> is a start address and a length; the bytes themselves are not
  modelled. \<^verbatim>\<open>end()\<close> is \<^verbatim>\<open>start_ + length_\<close>.
\<close>

record Vector =
  vec_start :: Address
  vec_size :: size_t

definition vec_end :: "Vector \<Rightarrow> Address" where
  "vec_end v = vec_start v + vec_size v"

datatype Kind = kFunction | kWasmToJsWrapper | kLazyStub | kRuntimeStub | kInterpreterEntry | kJumpTable

datatype Tier = kLiftoff | kTurbofan | kOther

text \<open>
  The fields of \<^verbatim>\<open>WasmCode\<close>, without the owned byte arrays (only their sizes) and
  without the back pointer to the module. \<open>index\<close> is the \<^verbatim>\<open>Maybe<uint32_t>\<close>.
\<close>

record WasmCode =
  instructions :: Vector
  reloc_size :: size_t
  source_position_size :: size_t
  index :: "uint32_t option"
  kind :: Kind
  constant_pool_offset :: size_t
  stack_slots :: uint32_t
  safepoint_table_offset :: size_t
  handler_table_offset :: size_t
  trap_handler_index :: int
  tier :: Tier

definition instruction_start :: "WasmCode \<Rightarrow> Address" where
  "instruction_start code = vec_start (instructions code)"

definition instruction_end :: "WasmCode \<Rightarrow> Address" where
  "instruction_end code = vec_end (instructions code)"

text \<open>\<^verbatim>\<open>WasmCode::contains\<close>.\<close>

definition contains :: "WasmCode \<Rightarrow> Address \<Rightarrow> bool" where
  "contains code pc = (vec_start (instructions code) \<le> pc \<and> pc < vec_end (instructions code))"

text \<open>\<^verbatim>\<open>WasmCodeUniquePtrComparator::operator()\<close>.\<close>

definition WasmCodeUniquePtrComparator :: "Address \<Rightarrow> WasmCode \<Rightarrow> bool" where
  "WasmCodeUniquePtrComparator pc code = (pc < instruction_start code)"

text \<open>
  \<^verbatim>\<open>std::upper_bound(first, last, value, comp)\<close> of the C++ standard library (\<open>cmp\<close> is
  its \<^verbatim>\<open>comp\<close>), as
  the usual binary search over the index range \<open>[first, first + len)\<close>: it halves the
  range until it is empty and returns the index it stopped at.
\<close>

function upper_bound :: "('v \<Rightarrow> 'a \<Rightarrow> bool) \<Rightarrow> 'a list \<Rightarrow> 'v \<Rightarrow> nat \<Rightarrow> nat \<Rightarrow> nat" where
  "upper_bound cmp xs val first len =
     (if len = 0 then first
      else let half = len div 2; middle = first + half in
        if cmp val (xs ! middle) then upper_bound cmp xs val first half
        else upper_bound cmp xs val (middle + 1) (len - half - 1))"
  by pat_completeness auto
termination
  by (relation "measure (\<lambda>(cmp, xs, val, first, len). len)") auto

declare upper_bound.simps [simp del]

subsection \<open>NativeModule\<close>

text \<open>
  Modelled from the spec: \<^verbatim>\<open>VirtualMemory\<close> (\<^verbatim>\<open>src/allocation.h\<close>, not among the
  sources) is the spec's VirtualMemoryRegion, one OS reservation \<open>(base, size)\<close>; a
  released region has a null address.
\<close>

record VirtualMemory =
  address :: Address
  vm_size :: size_t

definition vm_end :: "VirtualMemory \<Rightarrow> Address" where
  "vm_end vmem = address vmem + vm_size vmem"

definition IsReserved :: "VirtualMemory \<Rightarrow> bool" where
  "IsReserved vmem = (address vmem \<noteq> kNullAddress)"

definition VirtualMemory_default :: VirtualMemory where
  "VirtualMemory_default = \<lparr>address = kNullAddress, vm_size = 0\<rparr>"

text \<open>
  The fields of \<^verbatim>\<open>NativeModule\<close> that the operations below read or write.
  \<^verbatim>\<open>WasmCode*\<close> pointers (\<open>code_table\<close>, \<open>jump_table\<close>) are optional copies of the
  code object, \<open>None\<close> for \<^verbatim>\<open>nullptr\<close>. The compilation state, the module object
  handle, the runtime stub table, the mutex and the pointer to the manager are left
  out; the manager is passed to the operations that use it.
\<close>

record NativeModule =
  owned_code :: "WasmCode list"
  num_functions :: uint32_t
  num_imported_functions :: uint32_t
  code_table :: "WasmCode option list"
  jump_table :: "WasmCode option"
  free_code_space :: DisjointAllocationPool
  allocated_code_space :: DisjointAllocationPool
  owned_code_space :: "VirtualMemory list"
  committed_code_space :: size_t
  modification_scope_depth :: int
  can_request_more_memory :: bool
  use_trap_handler :: bool
  is_executable :: bool
  lazy_compile_frozen :: bool

text \<open>\<^verbatim>\<open>NativeModule::Lookup\<close>.\<close>

definition Lookup :: "NativeModule \<Rightarrow> Address \<Rightarrow> WasmCode option" where
  "Lookup nm pc =
     (if owned_code nm = [] then None
      else let iter = upper_bound WasmCodeUniquePtrComparator (owned_code nm) pc 0
                        (length (owned_code nm)) in
        if iter = 0 then None
        else let candidate = owned_code nm ! (iter - 1) in
          if contains candidate pc then Some candidate else None)"

text \<open>
  \<^verbatim>\<open>NativeModule::GetCallTargetForFunction\<close> and
  \<^verbatim>\<open>NativeModule::GetFunctionIndexFromJumpTableSlot\<close>. Both dereference
  \<^verbatim>\<open>jump_table_\<close>; the result is \<open>None\<close> when that pointer is null. The product
  \<^verbatim>\<open>slot_idx * kJumpTableSlotSize\<close> is taken in 32 bits and then added to the
  64-bit address; the offset is cast to \<^verbatim>\<open>uint32_t\<close> before the division.
\<close>

definition GetCallTargetForFunction :: "Platform \<Rightarrow> NativeModule \<Rightarrow> uint32_t \<Rightarrow> Address option" where
  "GetCallTargetForFunction cfg nm func_index =
     (case jump_table nm of
        None \<Rightarrow> None
      | Some jt \<Rightarrow>
          let slot_idx = func_index - num_imported_functions nm in
          Some (instruction_start jt + ucast (slot_idx * kJumpTableSlotSize cfg)))"

definition GetFunctionIndexFromJumpTableSlot :: "Platform \<Rightarrow> NativeModule \<Rightarrow> Address \<Rightarrow> uint32_t option" where
  "GetFunctionIndexFromJumpTableSlot cfg nm slot_address =
     (case jump_table nm of
        None \<Rightarrow> None
      | Some jt \<Rightarrow>
          let offset = (ucast (slot_address - instruction_start jt) :: uint32_t);
              slot_idx = offset div kJumpTableSlotSize cfg in
          Some (num_imported_functions nm + slot_idx))"

text \<open>
  The assertions of \<^verbatim>\<open>GetCallTargetForFunction\<close>:
  \<^verbatim>\<open>DCHECK_NOT_NULL(jump_table_)\<close> and
  \<^verbatim>\<open>DCHECK_LT(slot_idx, jump_table_->instructions().size() / kJumpTableSlotSize)\<close>,
  the comparison and the division taken in \<^verbatim>\<open>size_t\<close>. They are checked in debug
  builds only, so they are a predicate on the arguments here and not a branch of the
  function.
\<close>

definition GetCallTargetForFunction_DCHECK :: "Platform \<Rightarrow> NativeModule \<Rightarrow> uint32_t \<Rightarrow> bool" where
  "GetCallTargetForFunction_DCHECK cfg nm func_index =
     (case jump_table nm of
        None \<Rightarrow> False
      | Some jt \<Rightarrow>
          let slot_idx = func_index - num_imported_functions nm in
          (ucast slot_idx :: size_t)
            < vec_size (instructions jt) div ucast (kJumpTableSlotSize cfg))"

text \<open>
  The code list is kept in ascending order of instruction start, with pairwise disjoint
  instruction ranges that do not wrap around the address space.
\<close>

definition code_sorted :: "WasmCode list \<Rightarrow> bool" where
  "code_sorted codes = sorted_wrt (\<lambda>a b. instruction_start a \<le> instruction_start b) codes"

definition code_disjoint :: "WasmCode list \<Rightarrow> bool" where
  "code_disjoint codes =
     (list_all (\<lambda>c. instruction_start c \<le> instruction_end c) codes
      \<and> sorted_wrt (\<lambda>a b. instruction_end a \<le> instruction_start b) codes)"

subsection \<open>The environment\<close>

text \<open>
  Modelled from the spec: \<^verbatim>\<open>SetPermissions\<close>, \<^verbatim>\<open>AlignedAllocVirtualMemory\<close>,
  \<^verbatim>\<open>GetRandomMmapAddr\<close> and \<^verbatim>\<open>VirtualMemory::Free\<close> (\<^verbatim>\<open>src/allocation.h\<close>, not
  among the sources) are the spec's OS operations \<^verbatim>\<open>set_permissions\<close>,
  \<^verbatim>\<open>reserve\<close> and \<^verbatim>\<open>release\<close>. Every call is appended to a trace, and whether a
  call succeeds is decided by an oracle that sees the calls made so far.
  \<open>cas_failures\<close> is the number of times \<^verbatim>\<open>compare_exchange_weak\<close> fails before it
  succeeds in one \<^verbatim>\<open>Commit\<close>.
\<close>

datatype Permission = kNoAccess | kReadWrite | kReadWriteExecute | kReadExecute

datatype syscall =
    SetPermissions_call Address size_t Permission
  | AlignedAllocVirtualMemory_call size_t size_t Address
  | Free_call Address size_t

record Environment =
  SetPermissions_ok :: "syscall list \<Rightarrow> Address \<Rightarrow> size_t \<Rightarrow> Permission \<Rightarrow> bool"
  AlignedAllocVirtualMemory_result :: "syscall list \<Rightarrow> size_t \<Rightarrow> size_t \<Rightarrow> Address \<Rightarrow> VirtualMemory"
  GetRandomMmapAddr :: "syscall list \<Rightarrow> Address"
  cas_failures :: "syscall list \<Rightarrow> nat"

definition SetPermissions ::
  "Environment \<Rightarrow> syscall list \<Rightarrow> Address \<Rightarrow> size_t \<Rightarrow> Permission \<Rightarrow> bool \<times> syscall list" where
  "SetPermissions env tr addr sz permission =
     (SetPermissions_ok env tr addr sz permission, tr @ [SetPermissions_call addr sz permission])"

text \<open>The permission changes among the calls of a trace.\<close>

fun is_SetPermissions :: "syscall \<Rightarrow> bool" where
  "is_SetPermissions (SetPermissions_call addr sz permission) = True"
| "is_SetPermissions (AlignedAllocVirtualMemory_call sz alignment hint) = False"
| "is_SetPermissions (Free_call addr sz) = False"

definition permission_changes :: "syscall list \<Rightarrow> syscall list" where
  "permission_changes tr = filter is_SetPermissions tr"

subsection \<open>NativeModule::SetExecutable and the modification scope\<close>

text \<open>
  The two loops of \<^verbatim>\<open>SetExecutable\<close>: over the reservations (Windows, growable
  module) and over the ranges of \<^verbatim>\<open>allocated_code_space_\<close>. Each stops at the first
  failing call and reports it.
\<close>

fun SetPermissions_vmems ::
  "Environment \<Rightarrow> Permission \<Rightarrow> VirtualMemory list \<Rightarrow> syscall list \<Rightarrow> bool \<times> syscall list" where
  "SetPermissions_vmems env permission [] tr = (True, tr)"
| "SetPermissions_vmems env permission (vmem # rest) tr =
     (case SetPermissions env tr (address vmem) (vm_size vmem) permission of
        (ok, tr') \<Rightarrow> if \<not> ok then (False, tr') else SetPermissions_vmems env permission rest tr')"

fun SetPermissions_ranges ::
  "Platform \<Rightarrow> Environment \<Rightarrow> Permission \<Rightarrow> AddressRange list \<Rightarrow> syscall list \<Rightarrow> bool \<times> syscall list" where
  "SetPermissions_ranges cfg env permission [] tr = (True, tr)"
| "SetPermissions_ranges cfg env permission (r # rest) tr =
     (let range_sz = RoundUp (range_size r) (AllocatePageSize cfg) in
      case SetPermissions env tr (start r) range_sz permission of
        (ok, tr') \<Rightarrow> if \<not> ok then (False, tr') else SetPermissions_ranges cfg env permission rest tr')"

fun SetExecutable ::
  "Platform \<Rightarrow> Environment \<Rightarrow> bool \<Rightarrow> NativeModule \<times> syscall list \<Rightarrow> bool \<times> NativeModule \<times> syscall list" where
  "SetExecutable cfg env executable (nm, tr) =
     (if is_executable nm = executable then (True, nm, tr)
      else let permission = (if executable then kReadExecute else kReadWrite) in
        if FLAG_wasm_write_protect_code_memory cfg then
          if V8_OS_WIN cfg \<and> can_request_more_memory nm then
            (case SetPermissions_vmems env permission (owned_code_space nm) tr of
               (ok, tr') \<Rightarrow> if \<not> ok then (False, nm, tr')
                            else (True, nm\<lparr>is_executable := executable\<rparr>, tr'))
          else
            (case SetPermissions_ranges cfg env permission (allocated_code_space nm) tr of
               (ok, tr') \<Rightarrow> if \<not> ok then (False, nm, tr')
                            else (True, nm\<lparr>is_executable := executable\<rparr>, tr'))
        else (True, nm\<lparr>is_executable := executable\<rparr>, tr))"

text \<open>
  A failed \<^verbatim>\<open>CHECK\<close> and \<^verbatim>\<open>V8::FatalProcessOutOfMemory\<close> abort the process.
\<close>

datatype fatal = CHECK_failed | FatalProcessOutOfMemory

text \<open>
  Constructor and destructor of \<^verbatim>\<open>NativeModuleModificationScope\<close>. The module pointer
  may be null (\<open>None\<close>), and then nothing happens. The depth is a C++ \<^verbatim>\<open>int\<close>, here
  an unbounded integer.
\<close>

fun NativeModuleModificationScope_enter ::
  "Platform \<Rightarrow> Environment \<Rightarrow> NativeModule option \<times> syscall list
     \<Rightarrow> fatal + NativeModule option \<times> syscall list" where
  "NativeModuleModificationScope_enter cfg env (None, tr) = Inr (None, tr)"
| "NativeModuleModificationScope_enter cfg env (Some nm, tr) =
     (let depth = modification_scope_depth nm;
          nm1 = nm\<lparr>modification_scope_depth := depth + 1\<rparr> in
      if depth = 0 then
        (case SetExecutable cfg env False (nm1, tr) of
           (success, nm2, tr2) \<Rightarrow> if success then Inr (Some nm2, tr2) else Inl CHECK_failed)
      else Inr (Some nm1, tr))"

fun NativeModuleModificationScope_exit ::
  "Platform \<Rightarrow> Environment \<Rightarrow> NativeModule option \<times> syscall list
     \<Rightarrow> fatal + NativeModule option \<times> syscall list" where
  "NativeModuleModificationScope_exit cfg env (None, tr) = Inr (None, tr)"
| "NativeModuleModificationScope_exit cfg env (Some nm, tr) =
     (let depth = modification_scope_depth nm;
          nm1 = nm\<lparr>modification_scope_depth := depth - 1\<rparr> in
      if depth = 1 then
        (case SetExecutable cfg env True (nm1, tr) of
           (success, nm2, tr2) \<Rightarrow> if success then Inr (Some nm2, tr2) else Inl CHECK_failed)
      else Inr (Some nm1, tr))"

text \<open>
  A sequence of scope constructions (\<open>True\<close>) and destructions (\<open>False\<close>) on one
  module, stopping at the first fatal error.
\<close>

fun scopes ::
  "Platform \<Rightarrow> Environment \<Rightarrow> bool list \<Rightarrow> NativeModule option \<times> syscall list
     \<Rightarrow> fatal + NativeModule option \<times> syscall list" where
  "scopes cfg env [] s = Inr s"
| "scopes cfg env (enter # rest) s =
     (case (if enter then NativeModuleModificationScope_enter cfg env s
            else NativeModuleModificationScope_exit cfg env s) of
        Inl f \<Rightarrow> Inl f
      | Inr s' \<Rightarrow> scopes cfg env rest s')"

subsection \<open>NativeModule::DisableTrapHandler\<close>

text \<open>
  \<^verbatim>\<open>memset(code_table_.get(), 0, n * sizeof(WasmCode*))\<close> nulls the first \<open>n\<close>
  entries. The table holds at least \<open>n\<close> entries in the source; writing past its end
  is not modelled.
\<close>

definition memset_null :: "'a option list \<Rightarrow> nat \<Rightarrow> 'a option list" where
  "memset_null table n = replicate (min n (length table)) None @ drop n table"

definition DisableTrapHandler :: "NativeModule \<Rightarrow> NativeModule" where
  "DisableTrapHandler nm =
     (let nm1 = nm\<lparr>use_trap_handler := False\<rparr>;
          num_wasm_functions = num_functions nm1 - num_imported_functions nm1 in
      nm1\<lparr>code_table := memset_null (code_table nm1) (unat num_wasm_functions)\<rparr>)"

text \<open>The accessor \<^verbatim>\<open>NativeModule::code_table()\<close>.\<close>

definition code_table_vector :: "NativeModule \<Rightarrow> WasmCode option list" where
  "code_table_vector nm = take (unat (num_functions nm - num_imported_functions nm)) (code_table nm)"

subsection \<open>WasmCodeManager\<close>

text \<open>
  \<^verbatim>\<open>NativeModule*\<close> values are module numbers. \<open>lookup_map\<close> is the
  \<^verbatim>\<open>std::map\<close> from a reservation's start to its end and module.
\<close>

record WasmCodeManager =
  lookup_map :: "Address \<rightharpoonup> Address \<times> nat"
  active :: size_t
  remaining_uncommitted_code_space :: size_t

definition WasmCodeManager_ctor :: "size_t \<Rightarrow> WasmCodeManager" where
  "WasmCodeManager_ctor max_committed =
     \<lparr>lookup_map = Map.empty, active = 0, remaining_uncommitted_code_space = max_committed\<rparr>"

text \<open>
  The reservation loop of \<^verbatim>\<open>Commit\<close>: the first argument counts the failures of
  \<^verbatim>\<open>compare_exchange_weak\<close> still to come; a failed exchange reloads the counter
  and tries again. The result is whether \<open>sz\<close> was reserved, and the counter.
\<close>

fun cas_loop :: "nat \<Rightarrow> size_t \<Rightarrow> size_t \<Rightarrow> bool \<times> size_t" where
  "cas_loop 0 sz old_value =
     (if old_value < sz then (False, old_value) else (True, old_value - sz))"
| "cas_loop (Suc n) sz old_value =
     (if old_value < sz then (False, old_value) else cas_loop n sz old_value)"

text \<open>\<^verbatim>\<open>WasmCodeManager::Commit\<close>.\<close>

fun Commit ::
  "Platform \<Rightarrow> Environment \<Rightarrow> Address \<Rightarrow> size_t \<Rightarrow> WasmCodeManager \<times> syscall list
     \<Rightarrow> bool \<times> WasmCodeManager \<times> syscall list" where
  "Commit cfg env start_addr sz (mgr, tr) =
     (case cas_loop (cas_failures env tr) sz (remaining_uncommitted_code_space mgr) of
        (reserved, new_value) \<Rightarrow>
          if \<not> reserved then (False, mgr, tr)
          else
            let mgr1 = mgr\<lparr>remaining_uncommitted_code_space := new_value\<rparr>;
                permission = (if FLAG_wasm_write_protect_code_memory cfg then kReadWrite
                              else kReadWriteExecute) in
            case SetPermissions env tr start_addr sz permission of
              (ret, tr1) \<Rightarrow>
                if \<not> ret
                then (False,
                      mgr1\<lparr>remaining_uncommitted_code_space :=
                             remaining_uncommitted_code_space mgr1 + sz\<rparr>, tr1)
                else (ret, mgr1, tr1))"

text \<open>\<^verbatim>\<open>WasmCodeManager::AssignRanges\<close>: \<^verbatim>\<open>std::map::insert\<close> keeps an existing entry.\<close>

definition AssignRanges :: "Address \<Rightarrow> Address \<Rightarrow> nat \<Rightarrow> WasmCodeManager \<Rightarrow> WasmCodeManager" where
  "AssignRanges start_addr end_address native_module mgr =
     (case lookup_map mgr start_addr of
        None \<Rightarrow> mgr\<lparr>lookup_map := (lookup_map mgr)(start_addr \<mapsto> (end_address, native_module))\<rparr>
      | Some entry \<Rightarrow> mgr)"

text \<open>\<^verbatim>\<open>WasmCodeManager::TryAllocate\<close>.\<close>

definition TryAllocate ::
  "Platform \<Rightarrow> Environment \<Rightarrow> size_t \<Rightarrow> Address \<Rightarrow> syscall list \<Rightarrow> VirtualMemory \<times> syscall list" where
  "TryAllocate cfg env sz hint tr =
     (let sz1 = RoundUp sz (AllocatePageSize cfg);
          hint1 = (if hint = kNullAddress then GetRandomMmapAddr env tr else hint) in
      (AlignedAllocVirtualMemory_result env tr sz1 (AllocatePageSize cfg) hint1,
       tr @ [AlignedAllocVirtualMemory_call sz1 (AllocatePageSize cfg) hint1]))"

subsection \<open>NativeModule::AllocateForCode and NativeModule::AddOwnedCode\<close>

text \<open>
  The Windows loop of \<^verbatim>\<open>AllocateForCode\<close> over the reservations, newest first. The
  state is \<^verbatim>\<open>committed_code_space_\<close>, the manager and the trace.
\<close>

fun commit_reservations ::
  "Platform \<Rightarrow> Environment \<Rightarrow> VirtualMemory list \<Rightarrow> Address \<Rightarrow> Address
     \<Rightarrow> size_t \<times> WasmCodeManager \<times> syscall list
     \<Rightarrow> bool \<times> size_t \<times> WasmCodeManager \<times> syscall list" where
  "commit_reservations cfg env [] commit_start commit_end s = (True, s)"
| "commit_reservations cfg env (it # rest) commit_start commit_end (committed, mgr, tr) =
     (if \<not> commit_start < commit_end then (True, committed, mgr, tr)
      else if commit_end > vm_end it \<or> address it \<ge> commit_end
      then commit_reservations cfg env rest commit_start commit_end (committed, mgr, tr)
      else
        let start_addr = max commit_start (address it);
            commit_size = commit_end - start_addr in
        case Commit cfg env start_addr commit_size (mgr, tr) of
          (ok, mgr', tr') \<Rightarrow>
            if \<not> ok then (False, committed, mgr', tr')
            else commit_reservations cfg env rest commit_start start_addr
                   (committed + commit_size, mgr', tr'))"

text \<open>
  The second half of \<^verbatim>\<open>AllocateForCode\<close>, from the computation of
  \<^verbatim>\<open>commit_start\<close> on: it commits the pages of \<open>mem\<close> that are not yet committed,
  merges \<open>mem\<close> into \<^verbatim>\<open>allocated_code_space_\<close> and returns its start, or returns
  the null address when a commit fails.
\<close>

fun commit_allocated ::
  "Platform \<Rightarrow> Environment \<Rightarrow> AddressRange \<Rightarrow> NativeModule \<times> WasmCodeManager \<times> syscall list
     \<Rightarrow> Address \<times> NativeModule \<times> WasmCodeManager \<times> syscall list" where
  "commit_allocated cfg env mem (nm, mgr, tr) =
     (let commit_start = RoundUp (start mem) (AllocatePageSize cfg);
          commit_end = RoundUp (end_addr mem) (AllocatePageSize cfg) in
      if commit_start < commit_end then
        if V8_OS_WIN cfg then
          (case commit_reservations cfg env (rev (owned_code_space nm)) commit_start commit_end
                  (committed_code_space nm, mgr, tr) of
             (ok, committed, mgr', tr') \<Rightarrow>
               if \<not> ok then (kNullAddress, nm\<lparr>committed_code_space := committed\<rparr>, mgr', tr')
               else (start mem,
                     nm\<lparr>committed_code_space := committed,
                        allocated_code_space := Merge mem (allocated_code_space nm)\<rparr>, mgr', tr'))
        else
          (let commit_size = commit_end - commit_start in
           case Commit cfg env commit_start commit_size (mgr, tr) of
             (ok, mgr', tr') \<Rightarrow>
               if \<not> ok then (kNullAddress, nm, mgr', tr')
               else (start mem,
                     nm\<lparr>committed_code_space := committed_code_space nm + commit_size,
                        allocated_code_space := Merge mem (allocated_code_space nm)\<rparr>, mgr', tr'))
      else (start mem, nm\<lparr>allocated_code_space := Merge mem (allocated_code_space nm)\<rparr>, mgr, tr))"

text \<open>\<^verbatim>\<open>NativeModule::AllocateForCode\<close>; \<open>this\<close> is the number of the module.\<close>

fun AllocateForCode ::
  "Platform \<Rightarrow> Environment \<Rightarrow> nat \<Rightarrow> size_t \<Rightarrow> NativeModule \<times> WasmCodeManager \<times> syscall list
     \<Rightarrow> Address \<times> NativeModule \<times> WasmCodeManager \<times> syscall list" where
  "AllocateForCode cfg env this sz0 (nm, mgr, tr) =
     (let sz = RoundUp sz0 (kCodeAlignment cfg) in
      case Allocate sz (free_code_space nm) of
        (mem, free1) \<Rightarrow>
          let nm1 = nm\<lparr>free_code_space := free1\<rparr> in
          if is_empty_range mem then
            if \<not> can_request_more_memory nm1 then (kNullAddress, nm1, mgr, tr)
            else
              let hint = (if owned_code_space nm1 = [] then kNullAddress
                          else vm_end (last (owned_code_space nm1))) in
              case TryAllocate cfg env sz hint tr of
                (new_mem, tr1) \<Rightarrow>
                  let nm2 = nm1\<lparr>owned_code_space := owned_code_space nm1 @ [new_mem]\<rparr> in
                  if \<not> IsReserved new_mem then (kNullAddress, nm2, mgr, tr1)
                  else
                    let mgr1 = AssignRanges (address new_mem) (vm_end new_mem) this mgr in
                    case Allocate sz (Merge \<lparr>start = address new_mem, end_addr = vm_end new_mem\<rparr>
                                        (free_code_space nm2)) of
                      (mem2, free2) \<Rightarrow>
                        let nm3 = nm2\<lparr>free_code_space := free2\<rparr> in
                        if is_empty_range mem2 then (kNullAddress, nm3, mgr1, tr1)
                        else commit_allocated cfg env mem2 (nm3, mgr1, tr1)
          else commit_allocated cfg env mem (nm1, mgr, tr))"

text \<open>
  \<^verbatim>\<open>NativeModule::AddOwnedCode\<close>. Its arguments are the fields of the code object it
  constructs and are passed as such a record, \<open>args\<close>, whose \<open>instructions\<close> are
  \<^verbatim>\<open>orig_instructions\<close>. The copy of the bytes and the cache flush are not modelled.
\<close>

fun AddOwnedCode ::
  "Platform \<Rightarrow> Environment \<Rightarrow> nat \<Rightarrow> WasmCode \<Rightarrow> NativeModule \<times> WasmCodeManager \<times> syscall list
     \<Rightarrow> fatal + WasmCode \<times> NativeModule \<times> WasmCodeManager \<times> syscall list" where
  "AddOwnedCode cfg env this args s =
     (case AllocateForCode cfg env this (vec_size (instructions args)) s of
        (executable_buffer, nm, mgr, tr) \<Rightarrow>
          if executable_buffer = kNullAddress then Inl FatalProcessOutOfMemory
          else
            let code = args\<lparr>instructions :=
                         \<lparr>vec_start = executable_buffer, vec_size = vec_size (instructions args)\<rparr>,
                            trap_handler_index := - 1\<rparr>;
                insert_before = upper_bound WasmCodeUniquePtrComparator (owned_code nm)
                                  (instruction_start code) 0 (length (owned_code nm)) in
            Inr (code,
                 nm\<lparr>owned_code := take insert_before (owned_code nm) @ code
                                    # drop insert_before (owned_code nm)\<rparr>,
                 mgr, tr))"

text \<open>\<^verbatim>\<open>NativeModule::CreateEmptyJumpTable\<close>; the table size is a 32-bit product.\<close>

definition CreateEmptyJumpTable ::
  "Platform \<Rightarrow> Environment \<Rightarrow> nat \<Rightarrow> uint32_t \<Rightarrow> NativeModule \<times> WasmCodeManager \<times> syscall list
     \<Rightarrow> fatal + WasmCode \<times> NativeModule \<times> WasmCodeManager \<times> syscall list" where
  "CreateEmptyJumpTable cfg env this num_wasm_functions s =
     (let jump_table_size = (ucast (num_wasm_functions * kJumpTableSlotSize cfg) :: size_t) in
      AddOwnedCode cfg env this
        \<lparr>instructions = \<lparr>vec_start = kNullAddress, vec_size = jump_table_size\<rparr>,
         reloc_size = 0, source_position_size = 0, index = None, kind = kJumpTable,
         constant_pool_offset = 0, stack_slots = 0, safepoint_table_offset = 0,
         handler_table_offset = 0, trap_handler_index = - 1, tier = kOther\<rparr> s)"

text \<open>
  The constructor of \<^verbatim>\<open>NativeModule\<close>: the member initialisers, then the code table
  and the jump table when the module declares functions.
\<close>

definition NativeModule_ctor ::
  "Platform \<Rightarrow> Environment \<Rightarrow> nat \<Rightarrow> uint32_t \<Rightarrow> uint32_t \<Rightarrow> bool \<Rightarrow> VirtualMemory \<Rightarrow> bool
     \<Rightarrow> WasmCodeManager \<times> syscall list
     \<Rightarrow> fatal + NativeModule \<times> WasmCodeManager \<times> syscall list" where
  "NativeModule_ctor cfg env this n_functions n_imported can_request_more code_space
       env_use_trap_handler s =
     (let nm0 = \<lparr>owned_code = [], num_functions = n_functions,
                 num_imported_functions = n_imported, code_table = [], jump_table = None,
                 free_code_space = [\<lparr>start = address code_space, end_addr = vm_end code_space\<rparr>],
                 allocated_code_space = [], owned_code_space = [code_space],
                 committed_code_space = 0, modification_scope_depth = 0,
                 can_request_more_memory = can_request_more,
                 use_trap_handler = env_use_trap_handler, is_executable = False,
                 lazy_compile_frozen = False\<rparr>;
          num_wasm_functions = n_functions - n_imported in
      if num_wasm_functions > 0 then
        (case CreateEmptyJumpTable cfg env this num_wasm_functions
                (nm0\<lparr>code_table := replicate (unat num_wasm_functions) None\<rparr>, fst s, snd s) of
           Inl f \<Rightarrow> Inl f
         | Inr (code, nm, mgr, tr) \<Rightarrow> Inr (nm\<lparr>jump_table := Some code\<rparr>, mgr, tr))
      else Inr (nm0, fst s, snd s))"

text \<open>
  \<^verbatim>\<open>WasmCodeManager::NewNativeModule\<close> (the overload that takes the memory estimate).
  The memory pressure notification to the embedder is not modelled.
\<close>

definition NewNativeModule ::
  "Platform \<Rightarrow> Environment \<Rightarrow> nat \<Rightarrow> size_t \<Rightarrow> uint32_t \<Rightarrow> uint32_t \<Rightarrow> bool \<Rightarrow> bool
     \<Rightarrow> WasmCodeManager \<times> syscall list
     \<Rightarrow> fatal + NativeModule \<times> WasmCodeManager \<times> syscall list" where
  "NewNativeModule cfg env this memory_estimate n_functions n_imported can_request_more
       env_use_trap_handler s =
     (let vmem_size = (if kRequiresCodeRange cfg then kMaxWasmCodeMemory cfg else memory_estimate) in
      case TryAllocate cfg env vmem_size kNullAddress (snd s) of
        (mem, tr1) \<Rightarrow>
          if IsReserved mem then
            (case NativeModule_ctor cfg env this n_functions n_imported can_request_more mem
                    env_use_trap_handler (fst s, tr1) of
               Inl f \<Rightarrow> Inl f
             | Inr (nm, mgr, tr2) \<Rightarrow>
                 let mgr1 = AssignRanges (address mem) (vm_end mem) this mgr in
                 Inr (nm, mgr1\<lparr>active := active mgr1 + 1\<rparr>, tr2))
          else Inl FatalProcessOutOfMemory)"

text \<open>
  \<^verbatim>\<open>WasmCodeManager::FreeNativeModule\<close>. The loop erases every reservation from the
  map and frees it.
\<close>

fun free_reservations ::
  "VirtualMemory list \<Rightarrow> (Address \<rightharpoonup> Address \<times> nat) \<times> syscall list
     \<Rightarrow> (Address \<rightharpoonup> Address \<times> nat) \<times> syscall list" where
  "free_reservations [] s = s"
| "free_reservations (vmem # rest) (m, tr) =
     free_reservations rest (m(address vmem := None), tr @ [Free_call (address vmem) (vm_size vmem)])"

fun FreeNativeModule ::
  "NativeModule \<Rightarrow> WasmCodeManager \<times> syscall list \<Rightarrow> NativeModule \<times> WasmCodeManager \<times> syscall list" where
  "FreeNativeModule native_module (mgr, tr) =
     (let mgr1 = mgr\<lparr>active := active mgr - 1\<rparr> in
      case free_reservations (owned_code_space native_module) (lookup_map mgr1, tr) of
        (m, tr') \<Rightarrow>
          let code_size = committed_code_space native_module in
          (native_module\<lparr>owned_code_space := []\<rparr>,
           mgr1\<lparr>lookup_map := m,
                remaining_uncommitted_code_space := remaining_uncommitted_code_space mgr1 + code_size\<rparr>,
           tr'))"

subsection \<open>The manager and its modules as one system\<close>

text \<open>
  A state of the process: the manager, the modules created so far (\<open>None\<close> once
  destroyed; the position in the list is the module's number) and the trace of OS
  calls. An event is one call from outside; a call on a module that does not exist
  or was destroyed is not an event of the program and leaves the state as it is.
\<close>

record System =
  manager :: WasmCodeManager
  modules :: "NativeModule option list"
  os_calls :: "syscall list"

datatype event =
    NewNativeModule_event size_t uint32_t uint32_t bool bool
  | AddOwnedCode_event nat WasmCode
  | SetExecutable_event nat bool
  | DisableTrapHandler_event nat
  | ScopeEnter_event nat
  | ScopeExit_event nat
  | Destroy_event nat

definition live_module :: "System \<Rightarrow> nat \<Rightarrow> NativeModule option" where
  "live_module sys i = (if i < length (modules sys) then modules sys ! i else None)"

fun step :: "Platform \<Rightarrow> Environment \<Rightarrow> event \<Rightarrow> System \<Rightarrow> fatal + System" where
  "step cfg env (NewNativeModule_event memory_estimate n_functions n_imported can_request_more
                   env_use_trap_handler) sys =
     (case NewNativeModule cfg env (length (modules sys)) memory_estimate n_functions n_imported
             can_request_more env_use_trap_handler (manager sys, os_calls sys) of
        Inl f \<Rightarrow> Inl f
      | Inr (nm, mgr, tr) \<Rightarrow>
          Inr (sys\<lparr>manager := mgr, modules := modules sys @ [Some nm], os_calls := tr\<rparr>))"
| "step cfg env (AddOwnedCode_event i args) sys =
     (case live_module sys i of
        None \<Rightarrow> Inr sys
      | Some nm \<Rightarrow>
          (case AddOwnedCode cfg env i args (nm, manager sys, os_calls sys) of
             Inl f \<Rightarrow> Inl f
           | Inr (code, nm', mgr, tr) \<Rightarrow>
               Inr (sys\<lparr>manager := mgr, modules := (modules sys)[i := Some nm'], os_calls := tr\<rparr>)))"
| "step cfg env (SetExecutable_event i executable) sys =
     (case live_module sys i of
        None \<Rightarrow> Inr sys
      | Some nm \<Rightarrow>
          (case SetExecutable cfg env executable (nm, os_calls sys) of
             (ok, nm', tr) \<Rightarrow> Inr (sys\<lparr>modules := (modules sys)[i := Some nm'], os_calls := tr\<rparr>)))"
| "step cfg env (DisableTrapHandler_event i) sys =
     (case live_module sys i of
        None \<Rightarrow> Inr sys
      | Some nm \<Rightarrow> Inr (sys\<lparr>modules := (modules sys)[i := Some (DisableTrapHandler nm)]\<rparr>))"
| "step cfg env (ScopeEnter_event i) sys =
     (case live_module sys i of
        None \<Rightarrow> Inr sys
      | Some nm \<Rightarrow>
          (case NativeModuleModificationScope_enter cfg env (Some nm, os_calls sys) of
             Inl f \<Rightarrow> Inl f
           | Inr (nm', tr) \<Rightarrow> Inr (sys\<lparr>modules := (modules sys)[i := nm'], os_calls := tr\<rparr>)))"
| "step cfg env (ScopeExit_event i) sys =
     (case live_module sys i of
        None \<Rightarrow> Inr sys
      | Some nm \<Rightarrow>
          (case NativeModuleModificationScope_exit cfg env (Some nm, os_calls sys) of
             Inl f \<Rightarrow> Inl f
           | Inr (nm', tr) \<Rightarrow> Inr (sys\<lparr>modules := (modules sys)[i := nm'], os_calls := tr\<rparr>)))"
| "step cfg env (Destroy_event i) sys =
     (case live_module sys i of
        None \<Rightarrow> Inr sys
      | Some nm \<Rightarrow>
          (case FreeNativeModule nm (manager sys, os_calls sys) of
             (nm', mgr, tr) \<Rightarrow>
               Inr (sys\<lparr>manager := mgr, modules := (modules sys)[i := None], os_calls := tr\<rparr>)))"

fun run :: "Platform \<Rightarrow> Environment \<Rightarrow> event list \<Rightarrow> System \<Rightarrow> fatal + System" where
  "run cfg env [] sys = Inr sys"
| "run cfg env (ev # evs) sys =
     (case step cfg env ev sys of
        Inl f \<Rightarrow> Inl f
      | Inr sys' \<Rightarrow> run cfg env evs sys')"

definition initial_system :: "size_t \<Rightarrow> System" where
  "initial_system max_committed =
     \<lparr>manager = WasmCodeManager_ctor max_committed, modules = [], os_calls = []\<rparr>"

text \<open>The sum of \<^verbatim>\<open>committed_code_space_\<close> over the live modules, as a natural number.\<close>

definition committed_of :: "NativeModule option \<Rightarrow> nat" where
  "committed_of m = (case m of None \<Rightarrow> 0 | Some nm \<Rightarrow> unat (committed_code_space nm))"

definition total_committed :: "System \<Rightarrow> nat" where
  "total_committed sys = sum_list (map committed_of (modules sys))"

subsection \<open>Code objects and modules for the examples\<close>

text \<open>
  An anonymous code object with the given instructions and kind, as \<open>AddOwnedCode\<close>
  builds it, and a module without code, functions or memory, to be updated field by
  field.
\<close>

definition code_object :: "Address \<Rightarrow> size_t \<Rightarrow> Kind \<Rightarrow> WasmCode" where
  "code_object addr sz knd =
     \<lparr>instructions = \<lparr>vec_start = addr, vec_size = sz\<rparr>,
      reloc_size = 0, source_position_size = 0, index = None, kind = knd,
      constant_pool_offset = 0, stack_slots = 0, safepoint_table_offset = 0,
      handler_table_offset = 0, trap_handler_index = - 1, tier = kOther\<rparr>"

definition empty_module :: NativeModule where
  "empty_module =
     \<lparr>owned_code = [], num_functions = 0, num_imported_functions = 0, code_table = [],
      jump_table = None, free_code_space = [], allocated_code_space = [],
      owned_code_space = [], committed_code_space = 0, modification_scope_depth = 0,
      can_request_more_memory = False, use_trap_handler = False, is_executable = False,
      lazy_compile_frozen = False\<rparr>"

text \<open>A configuration for the examples: 16-byte jump table slots and 4 KiB pages.\<close>

definition example_platform :: Platform where
  "example_platform =
     \<lparr>kJumpTableSlotSize = 16, kCodeAlignment = 32, AllocatePageSize = 4096,
      V8_OS_WIN = False, FLAG_wasm_write_protect_code_memory = True,
      kRequiresCodeRange = False, kMaxWasmCodeMemory = 1073741824\<rparr>"

subsection \<open>Auxiliary notions for the statements\<close>

text \<open>
  The permission changes that \<open>SetExecutable\<close> attempts, in order: none when the state
  already matches or write protection is off, otherwise one for each reservation
  (Windows, growable module) or for each allocated range.
\<close>

definition SetExecutable_calls :: "Platform \<Rightarrow> NativeModule \<Rightarrow> bool \<Rightarrow> syscall list" where
  "SetExecutable_calls cfg nm x =
     (if is_executable nm = x \<or> \<not> FLAG_wasm_write_protect_code_memory cfg then []
      else if V8_OS_WIN cfg \<and> can_request_more_memory nm
      then map (\<lambda>v. SetPermissions_call (address v) (vm_size v)
                      (if x then kReadExecute else kReadWrite)) (owned_code_space nm)
      else map (\<lambda>r. SetPermissions_call (start r)
                      (RoundUp (range_size r) (AllocatePageSize cfg))
                      (if x then kReadExecute else kReadWrite)) (allocated_code_space nm))"

fun sets_permission :: "Permission \<Rightarrow> syscall \<Rightarrow> bool" where
  "sets_permission p (SetPermissions_call addr sz permission) = (permission = p)"
| "sets_permission p (AlignedAllocVirtualMemory_call sz alignment hint) = False"
| "sets_permission p (Free_call addr sz) = False"

text \<open>
  Whether the OS grants a call after the calls of \<open>tr\<close> (only permission changes can be
  refused here), whether it grants every call of a sequence attempted in order, and the
  calls that are issued when the sequence stops at the first refusal.
\<close>

fun call_ok :: "Environment \<Rightarrow> syscall list \<Rightarrow> syscall \<Rightarrow> bool" where
  "call_ok env tr (SetPermissions_call addr sz permission) =
     SetPermissions_ok env tr addr sz permission"
| "call_ok env tr (AlignedAllocVirtualMemory_call sz alignment hint) = True"
| "call_ok env tr (Free_call addr sz) = True"

fun calls_succeed :: "Environment \<Rightarrow> syscall list \<Rightarrow> syscall list \<Rightarrow> bool" where
  "calls_succeed env tr [] = True"
| "calls_succeed env tr (c # cs) = (call_ok env tr c \<and> calls_succeed env (tr @ [c]) cs)"

fun calls_issued :: "Environment \<Rightarrow> syscall list \<Rightarrow> syscall list \<Rightarrow> syscall list" where
  "calls_issued env tr [] = []"
| "calls_issued env tr (c # cs) =
     c # (if call_ok env tr c then calls_issued env (tr @ [c]) cs else [])"

text \<open>
  A sequence of scope constructions and destructions is nested, from a given depth,
  when no construction happens at depth 0 and no destruction at depth 1; its balance is
  the change of the depth.
\<close>

fun nested :: "int \<Rightarrow> bool list \<Rightarrow> bool" where
  "nested depth [] = True"
| "nested depth (enter # rest) =
     (if enter then depth \<noteq> 0 \<and> nested (depth + 1) rest
      else depth \<noteq> 1 \<and> nested (depth - 1) rest)"

fun balance :: "bool list \<Rightarrow> int" where
  "balance [] = 0"
| "balance (enter # rest) = (if enter then 1 else - 1) + balance rest"

text \<open>
  An environment for the examples: every call succeeds, a reservation is placed at its
  hint, and no exchange fails.
\<close>

definition permissive_environment :: Environment where
  "permissive_environment =
     \<lparr>SetPermissions_ok = (\<lambda>tr addr sz permission. True),
      AlignedAllocVirtualMemory_result = (\<lambda>tr sz alignment hint. \<lparr>address = hint, vm_size = sz\<rparr>),
      GetRandomMmapAddr = (\<lambda>tr. 1048576),
      cas_failures = (\<lambda>tr. 0)\<rparr>"

text \<open>
  The remaining budget as a natural number, and the quantity that is conserved: the
  committed bytes of the live modules plus the remaining budget.
\<close>

abbreviation (input) remaining :: "WasmCodeManager \<Rightarrow> nat" where
  "remaining mgr \<equiv> unat (remaining_uncommitted_code_space mgr)"

definition budget :: "System \<Rightarrow> nat" where
  "budget sys = total_committed sys + unat (remaining_uncommitted_code_space (manager sys))"

section \<open>Properties\<close>

subsection \<open>AddressRange\<close>

text \<open>
  C10. The boolean conversion of an \<open>AddressRange\<close> is true exactly when its start is
  the null address: the default-constructed range converts to true, every range with
  a non-null start converts to false, among them every valid non-empty range, and
  \<open>is_empty\<close> is the different test \<open>start = end\<close>.
\<close>

theorem operator_bool_null_start:
  "operator_bool r = (start r = kNullAddress)
   \<and> operator_bool AddressRange_default
   \<and> (start r \<noteq> kNullAddress \<longrightarrow> \<not> operator_bool r)
   \<and> (range_valid r \<and> \<not> is_empty_range r \<longrightarrow> \<not> operator_bool r)
   \<and> is_empty_range r = (start r = end_addr r)"
  by (auto simp: operator_bool_def AddressRange_default_def range_valid_def is_empty_range_def)

theorem operator_bool_null_start_witness:
  "start \<lparr>start = 4096, end_addr = 8192\<rparr> \<noteq> kNullAddress
   \<and> range_valid \<lparr>start = 4096, end_addr = 8192\<rparr>
   \<and> \<not> is_empty_range \<lparr>start = 4096, end_addr = 8192\<rparr>
   \<and> \<not> operator_bool \<lparr>start = 4096, end_addr = 8192\<rparr>
   \<and> is_empty_range \<lparr>start = 4096, end_addr = 4096\<rparr>
   \<and> \<not> operator_bool \<lparr>start = 4096, end_addr = 4096\<rparr>
   \<and> operator_bool AddressRange_default \<and> is_empty_range AddressRange_default"
  using operator_bool_null_start [of "\<lparr>start = 4096, end_addr = 8192\<rparr>"]
    operator_bool_null_start [of "\<lparr>start = 4096, end_addr = 4096\<rparr>"]
  by (simp add: kNullAddress_def range_valid_def range_ordered_def is_empty_range_def
      AddressRange_default_def)

subsection \<open>DisjointAllocationPool::Merge\<close>

lemma pool_sorted_Cons: "pool_sorted (d # rest) =
   (range_ordered d \<and> pool_sorted rest \<and> (case rest of [] \<Rightarrow> True | n # _ \<Rightarrow> end_addr d < start n))"
  by (cases rest) auto


lemma Merge_hd:
  "\<exists>h t. Merge r pool = h # t \<and> (start h = start r \<or> (\<exists>d rest. pool = d # rest \<and> start h = start d))"
  by (cases pool) (auto split: list.splits)

lemma Merge_sorted:
  "pool_sorted pool \<Longrightarrow> range_ordered r \<Longrightarrow> non_overlapping r pool \<Longrightarrow> pool_sorted (Merge r pool)"
proof (induction pool rule: pool_sorted.induct)
  case 1 then show ?case by simp
next
  case (2 d) then show ?case
    by (auto simp: range_ordered_def non_overlapping_def)
next
  case (3 d n rest)
  show ?case
  proof (cases "end_addr d < start r")
    case True
    have IH: "pool_sorted (Merge r (n # rest))"
      using 3 True by (simp add: non_overlapping_def)
    obtain h t where ht: "Merge r (n # rest) = h # t" "start h = start r \<or> start h = start n"
      using Merge_hd [of r "n # rest"] by auto
    have "end_addr d < start h" using ht(2) True 3(2) by auto
    then show ?thesis using True IH ht(1) 3(2) by (simp del: Merge.simps add: Merge.simps(2)[of r d] pool_sorted_Cons)
  next
    case False
    then show ?thesis using 3(2-)
      by (cases rest) (auto simp: range_ordered_def non_overlapping_def pool_sorted_Cons)
  qed
qed

lemma Merge_no_empty:
  "no_empty_ranges pool \<Longrightarrow> pool_sorted pool \<Longrightarrow> range_ordered r
   \<Longrightarrow> \<not> is_empty_range r \<Longrightarrow> no_empty_ranges (Merge r pool)"
proof (induction pool rule: pool_sorted.induct)
  case 1 then show ?case by (simp add: no_empty_ranges_def)
next
  case (2 d) then show ?case
    by (auto simp: range_ordered_def no_empty_ranges_def is_empty_range_def)
next
  case (3 d n rest)
  show ?case
  proof (cases "end_addr d < start r")
    case True
    then show ?thesis using 3 by (simp add: no_empty_ranges_def)
  next
    case False
    have ne: "start d \<noteq> end_addr d" "start n \<noteq> end_addr n" "start r \<noteq> end_addr r"
      and rest: "list_all (\<lambda>d. start d \<noteq> end_addr d) rest"
      and ord: "start d \<le> end_addr d" "end_addr d < start n" "start n \<le> end_addr n" "start r \<le> end_addr r"
      using 3(2-) by (simp_all add: no_empty_ranges_def is_empty_range_def range_ordered_def pool_sorted_Cons)
    show ?thesis
      unfolding no_empty_ranges_def is_empty_range_def
      using False ne rest ord by auto
  qed
qed

lemma pool_addrs_Cons: "pool_addrs (d # rest) = range_addrs d \<union> pool_addrs rest"
  by (simp add: pool_addrs_def)

lemma pool_addrs_Nil: "pool_addrs [] = {}"
  by (simp add: pool_addrs_def)

lemma Merge_addrs:
  "pool_sorted pool \<Longrightarrow> range_ordered r \<Longrightarrow> non_overlapping r pool
   \<Longrightarrow> pool_addrs (Merge r pool) = pool_addrs pool \<union> range_addrs r"
proof (induction pool rule: pool_sorted.induct)
  case 1 then show ?case by (simp add: pool_addrs_def)
next
  case (2 d) then show ?case
    by (auto simp: range_ordered_def non_overlapping_def pool_addrs_Cons pool_addrs_Nil range_addrs_def)
next
  case (3 d n rest)
  show ?case
  proof (cases "end_addr d < start r")
    case True
    then show ?thesis using 3 by (auto simp add: non_overlapping_def pool_addrs_Cons simp del: Merge.simps simp add: Merge.simps(2)[of r d])
  next
    case False
    then show ?thesis using 3(2-)
      by (cases rest) (auto simp: range_ordered_def non_overlapping_def pool_addrs_Cons pool_addrs_Nil range_addrs_def)
  qed
qed

text \<open>The loop of \<open>Merge\<close> skips a prefix of ranges that end before \<open>r\<close> starts; the four cases follow.\<close>

lemma Merge_skip:
  "list_all (\<lambda>d. end_addr d < start r) pre \<Longrightarrow> Merge r (pre @ rest) = pre @ Merge r rest"
  by (induction pre) auto

lemma Merge_append:
  "list_all (\<lambda>d. end_addr d < start r) pool \<Longrightarrow> Merge r pool = pool @ [r]"
  using Merge_skip [of r pool "[]"] by simp

lemma Merge_extend_down:
  "list_all (\<lambda>d. end_addr d < start r) pre \<Longrightarrow> \<not> end_addr d < start r \<Longrightarrow> start d = end_addr r
   \<Longrightarrow> Merge r (pre @ d # post) = pre @ d\<lparr>start := start r\<rparr> # post"
  by (simp add: Merge_skip)

lemma Merge_insert_before:
  "list_all (\<lambda>d. end_addr d < start r) pre \<Longrightarrow> \<not> end_addr d < start r \<Longrightarrow> end_addr r < start d
   \<Longrightarrow> Merge r (pre @ d # post) = pre @ r # d # post"
  by (simp add: Merge_skip)

lemma Merge_extend_up:
  "list_all (\<lambda>d. end_addr d < start r) pre \<Longrightarrow> end_addr d = start r \<Longrightarrow> start d < end_addr r
   \<Longrightarrow> Merge r (pre @ d # post) =
       pre @ (case post of [] \<Rightarrow> [d\<lparr>end_addr := end_addr r\<rparr>]
              | n # post' \<Rightarrow> if end_addr r = start n then d\<lparr>end_addr := end_addr n\<rparr> # post'
                             else d\<lparr>end_addr := end_addr r\<rparr> # post)"
  by (auto simp add: Merge_skip)

lemma pool_sorted_ordered:
  "pool_sorted pool \<Longrightarrow> list_all range_ordered pool"
  by (induction pool rule: pool_sorted.induct) simp_all

lemma pool_sorted_append:
  "pool_sorted (pre @ d # post) \<Longrightarrow>
   pool_sorted (d # post) \<and> list_all (\<lambda>p. end_addr p < start d) pre"
proof (induction pre)
  case Nil then show ?case by simp
next
  case (Cons p pre)
  then have IH: "pool_sorted (d # post)" "list_all (\<lambda>p. end_addr p < start d) pre"
    by (simp_all add: pool_sorted_Cons)
  have "end_addr p < start d"
  proof (cases pre)
    case Nil then show ?thesis using Cons.prems by simp
  next
    case (Cons n pre')
    then have "end_addr p < start n" "range_ordered n" "end_addr n < start d"
      using Cons.prems IH(2) by (simp_all add: pool_sorted_Cons)
    then show ?thesis by (simp add: range_ordered_def)
  qed
  then show ?case using IH by simp
qed

lemma Merge_adjacent_above:
  assumes "pool_sorted (pre @ d # post)" and "range_ordered r" and "non_overlapping r (pre @ d # post)"
    and "start d = end_addr r" and "list_all (\<lambda>p. end_addr p \<noteq> start r) pre"
  shows "Merge r (pre @ d # post) = pre @ d\<lparr>start := start r\<rparr> # post"
proof -
  have d: "range_ordered d" and pre: "list_all (\<lambda>p. end_addr p < start d) pre"
    using pool_sorted_append [OF assms(1)] by (simp_all add: pool_sorted_Cons)
  have "list_all (\<lambda>p. end_addr p < start r) pre"
    unfolding list_all_iff
  proof
    fix p assume p: "p \<in> set pre"
    have "end_addr p < end_addr r" "end_addr p \<noteq> start r"
      using p pre assms(4,5) by (auto simp: list_all_iff)
    moreover have "range_ordered p"
      using p pool_sorted_ordered [OF assms(1)] by (auto simp: list_all_iff)
    moreover have "end_addr r \<le> start p \<or> end_addr p \<le> start r"
      using p assms(3) by (auto simp: non_overlapping_def list_all_iff)
    ultimately show "end_addr p < start r" by (auto simp: range_ordered_def)
  qed
  moreover have "\<not> end_addr d < start r"
    using d assms(2,4) by (auto simp: range_ordered_def)
  ultimately show ?thesis using assms(4) by (rule Merge_extend_down)
qed


lemma Merge_adjacent_below:
  assumes "pool_sorted (pre @ d # post)" and "range_ordered r" and "end_addr d = start r"
  shows "Merge r (pre @ d # post) =
       pre @ (case post of [] \<Rightarrow> [d\<lparr>end_addr := end_addr r\<rparr>]
              | n # post' \<Rightarrow> if end_addr r = start n then d\<lparr>end_addr := end_addr n\<rparr> # post'
                             else d\<lparr>end_addr := end_addr r\<rparr> # post)"
proof -
  have d: "pool_sorted (d # post)" and pre: "list_all (\<lambda>p. end_addr p < start d) pre"
    using pool_sorted_append [OF assms(1)] by simp_all
  have "list_all (\<lambda>p. end_addr p < start r) pre"
    using pre d assms(3) by (auto simp: list_all_iff pool_sorted_Cons range_ordered_def)
  then have "Merge r (pre @ d # post) = pre @ Merge r (d # post)"
    by (rule Merge_skip)
  moreover have "Merge r (d # post) = (case post of [] \<Rightarrow> [d\<lparr>end_addr := end_addr r\<rparr>]
              | n # post' \<Rightarrow> if end_addr r = start n then d\<lparr>end_addr := end_addr n\<rparr> # post'
                             else d\<lparr>end_addr := end_addr r\<rparr> # post)"
    using d assms(2,3) by (cases post) (auto simp: pool_sorted_Cons range_ordered_def)
  ultimately show ?thesis by simp
qed

text \<open>
  C3. Merge coalescing. For a pool that satisfies its sortedness invariant and a range
  \<open>r\<close> (with \<open>start \<le> end\<close>, as its constructor asserts) that overlaps no stored
  range, \<open>Merge\<close> keeps the pool sorted, stores no empty range when it held none and
  \<open>r\<close> is not empty, and covers exactly the old addresses and those of \<open>r\<close>. A range
  that starts where \<open>r\<close> ends is extended downward (when no range ends where \<open>r\<close>
  starts); a range that ends where \<open>r\<close> starts is extended upward and absorbs its
  successor when that one starts where \<open>r\<close> ends. From the pool
  \<open>{[0,100), [200,300), [400,500)}\<close>, merging \<open>[100,200)\<close> gives
  \<open>{[0,300), [400,500)}\<close>, and merging \<open>[300,400)\<close> then gives \<open>{[0,500)}\<close>.
\<close>

theorem Merge_coalescing:
  assumes "pool_sorted pool" and "range_ordered r" and "non_overlapping r pool"
  shows "pool_sorted (Merge r pool)
    \<and> (no_empty_ranges pool \<and> \<not> is_empty_range r \<longrightarrow> no_empty_ranges (Merge r pool))
    \<and> pool_addrs (Merge r pool) = pool_addrs pool \<union> range_addrs r
    \<and> (\<forall>pre d post. pool = pre @ d # post \<and> start d = end_addr r
           \<and> list_all (\<lambda>p. end_addr p \<noteq> start r) pre
         \<longrightarrow> Merge r pool = pre @ d\<lparr>start := start r\<rparr> # post)
    \<and> (\<forall>pre d. pool = pre @ [d] \<and> end_addr d = start r
         \<longrightarrow> Merge r pool = pre @ [d\<lparr>end_addr := end_addr r\<rparr>])
    \<and> (\<forall>pre d n post. pool = pre @ d # n # post \<and> end_addr d = start r
         \<longrightarrow> Merge r pool =
             pre @ (if end_addr r = start n then d\<lparr>end_addr := end_addr n\<rparr> # post
                    else d\<lparr>end_addr := end_addr r\<rparr> # n # post))
    \<and> Merge \<lparr>start = 100, end_addr = 200\<rparr>
          [\<lparr>start = 0, end_addr = 100\<rparr>, \<lparr>start = 200, end_addr = 300\<rparr>,
           \<lparr>start = 400, end_addr = 500\<rparr>]
        = [\<lparr>start = 0, end_addr = 300\<rparr>, \<lparr>start = 400, end_addr = 500\<rparr>]
    \<and> Merge \<lparr>start = 300, end_addr = 400\<rparr>
          [\<lparr>start = 0, end_addr = 300\<rparr>, \<lparr>start = 400, end_addr = 500\<rparr>]
        = [\<lparr>start = 0, end_addr = 500\<rparr>]"
proof -
  have "pool_sorted (Merge r pool)"
    using assms by (rule Merge_sorted)
  moreover have "no_empty_ranges pool \<and> \<not> is_empty_range r \<longrightarrow> no_empty_ranges (Merge r pool)"
    using assms(1,2) by (simp add: Merge_no_empty)
  moreover have "pool_addrs (Merge r pool) = pool_addrs pool \<union> range_addrs r"
    using assms by (rule Merge_addrs)
  moreover have "\<forall>pre d post. pool = pre @ d # post \<and> start d = end_addr r
           \<and> list_all (\<lambda>p. end_addr p \<noteq> start r) pre
         \<longrightarrow> Merge r pool = pre @ d\<lparr>start := start r\<rparr> # post"
    using assms by (auto intro: Merge_adjacent_above)
  moreover have "\<forall>pre d. pool = pre @ [d] \<and> end_addr d = start r
         \<longrightarrow> Merge r pool = pre @ [d\<lparr>end_addr := end_addr r\<rparr>]"
    using assms(1,2) Merge_adjacent_below [of _ _ "[]" r] by auto
  moreover have "\<forall>pre d n post. pool = pre @ d # n # post \<and> end_addr d = start r
         \<longrightarrow> Merge r pool =
             pre @ (if end_addr r = start n then d\<lparr>end_addr := end_addr n\<rparr> # post
                    else d\<lparr>end_addr := end_addr r\<rparr> # n # post)"
  proof (intro allI impI)
    fix pre d n post
    assume a: "pool = pre @ d # n # post \<and> end_addr d = start r"
    then have "pool_sorted (pre @ d # n # post)" using assms(1) by simp
    from Merge_adjacent_below [OF this assms(2)] a
    show "Merge r pool =
             pre @ (if end_addr r = start n then d\<lparr>end_addr := end_addr n\<rparr> # post
                    else d\<lparr>end_addr := end_addr r\<rparr> # n # post)"
      by simp
  qed
  moreover have "Merge \<lparr>start = 100, end_addr = 200\<rparr>
          [\<lparr>start = 0, end_addr = 100\<rparr>, \<lparr>start = 200, end_addr = 300\<rparr>,
           \<lparr>start = 400, end_addr = 500\<rparr>]
        = [\<lparr>start = 0, end_addr = 300\<rparr>, \<lparr>start = 400, end_addr = 500\<rparr>]"
    by simp
  moreover have "Merge \<lparr>start = 300, end_addr = 400\<rparr>
          [\<lparr>start = 0, end_addr = 300\<rparr>, \<lparr>start = 400, end_addr = 500\<rparr>]
        = [\<lparr>start = 0, end_addr = 500\<rparr>]"
    by simp
  ultimately show ?thesis by blast
qed

theorem Merge_coalescing_witness:
  "pool_sorted [\<lparr>start = 0, end_addr = 100\<rparr>, \<lparr>start = 200, end_addr = 300\<rparr>,
                \<lparr>start = 400, end_addr = 500\<rparr>]
   \<and> range_ordered \<lparr>start = 100, end_addr = 200\<rparr>
   \<and> non_overlapping \<lparr>start = 100, end_addr = 200\<rparr>
        [\<lparr>start = 0, end_addr = 100\<rparr>, \<lparr>start = 200, end_addr = 300\<rparr>,
         \<lparr>start = 400, end_addr = 500\<rparr>]
   \<and> no_empty_ranges [\<lparr>start = 0, end_addr = 100\<rparr>, \<lparr>start = 200, end_addr = 300\<rparr>,
                \<lparr>start = 400, end_addr = 500\<rparr>]
   \<and> \<not> is_empty_range \<lparr>start = 100, end_addr = 200\<rparr>
   \<and> pool_sorted (Merge \<lparr>start = 100, end_addr = 200\<rparr>
        [\<lparr>start = 0, end_addr = 100\<rparr>, \<lparr>start = 200, end_addr = 300\<rparr>,
         \<lparr>start = 400, end_addr = 500\<rparr>])
   \<and> no_empty_ranges (Merge \<lparr>start = 100, end_addr = 200\<rparr>
        [\<lparr>start = 0, end_addr = 100\<rparr>, \<lparr>start = 200, end_addr = 300\<rparr>,
         \<lparr>start = 400, end_addr = 500\<rparr>])
   \<and> Merge \<lparr>start = 100, end_addr = 200\<rparr>
        [\<lparr>start = 0, end_addr = 100\<rparr>, \<lparr>start = 200, end_addr = 300\<rparr>,
         \<lparr>start = 400, end_addr = 500\<rparr>]
      = [] @ [\<lparr>start = 0, end_addr = 300\<rparr>, \<lparr>start = 400, end_addr = 500\<rparr>]
   \<and> Merge \<lparr>start = 100, end_addr = 200\<rparr> ([] @ \<lparr>start = 200, end_addr = 300\<rparr> # [])
      = [\<lparr>start = 100, end_addr = 300\<rparr>]
   \<and> Merge \<lparr>start = 100, end_addr = 200\<rparr> ([] @ [\<lparr>start = 0, end_addr = 100\<rparr>])
      = [\<lparr>start = 0, end_addr = 200\<rparr>]"
proof -
  have h: "pool_sorted [\<lparr>start = 0, end_addr = 100\<rparr>, \<lparr>start = 200, end_addr = 300\<rparr>,
                \<lparr>start = 400, end_addr = (500 :: Address)\<rparr>]"
    "range_ordered \<lparr>start = 100, end_addr = 200\<rparr>"
    "non_overlapping \<lparr>start = 100, end_addr = 200\<rparr>
        [\<lparr>start = 0, end_addr = 100\<rparr>, \<lparr>start = 200, end_addr = 300\<rparr>,
         \<lparr>start = 400, end_addr = 500\<rparr>]"
    by (simp_all add: range_ordered_def non_overlapping_def)
  have g: "pool_sorted [\<lparr>start = 200, end_addr = (300 :: Address)\<rparr>]"
    "non_overlapping \<lparr>start = 100, end_addr = 200\<rparr> [\<lparr>start = 200, end_addr = 300\<rparr>]"
    by (simp_all add: range_ordered_def non_overlapping_def)
  have f: "pool_sorted [\<lparr>start = 0, end_addr = (100 :: Address)\<rparr>]"
    "non_overlapping \<lparr>start = 100, end_addr = 200\<rparr> [\<lparr>start = 0, end_addr = 100\<rparr>]"
    by (simp_all add: range_ordered_def non_overlapping_def)
  show ?thesis
    using h Merge_coalescing [OF h] Merge_coalescing [OF g(1) h(2) g(2)]
      Merge_coalescing [OF f(1) h(2) f(2)]
    by (simp add: no_empty_ranges_def is_empty_range_def)
qed

subsection \<open>DisjointAllocationPool::Allocate\<close>

lemma Allocate_skip:
  "list_all (\<lambda>d. range_size d < sz) pre \<Longrightarrow>
   Allocate sz (pre @ rest) = (fst (Allocate sz rest), pre @ snd (Allocate sz rest))"
  by (induction pre) (auto split: prod.splits)

lemma Allocate_fit:
  "list_all (\<lambda>d. range_size d < sz) pre \<Longrightarrow> sz \<le> range_size it \<Longrightarrow>
   Allocate sz (pre @ it # post) =
     (\<lparr>start = start it, end_addr = start it + sz\<rparr>,
      pre @ (if sz = range_size it then post else it\<lparr>start := start it + sz\<rparr> # post))"
  by (simp add: Allocate_skip Let_def not_less [symmetric])

lemma Allocate_none:
  "list_all (\<lambda>d. range_size d < sz) pool \<Longrightarrow> Allocate sz pool = (AddressRange_default, pool)"
  using Allocate_skip [of sz pool "[]"] by simp

lemma Allocate_zero: "is_empty_range (fst (Allocate 0 pool))"
  by (cases pool) (auto simp: is_empty_range_def AddressRange_default_def)

lemma Allocate_cases:
  "(\<exists>pre it post. pool = pre @ it # post \<and> list_all (\<lambda>d. range_size d < sz) pre \<and> sz \<le> range_size it)
   \<or> list_all (\<lambda>d. range_size d < sz) pool"
proof (induction pool)
  case Nil then show ?case by simp
next
  case (Cons a pool)
  show ?case
  proof (cases "sz \<le> range_size a")
    case True
    then have "a # pool = [] @ a # pool \<and> list_all (\<lambda>d. range_size d < sz) [] \<and> sz \<le> range_size a" by simp
    then show ?thesis by blast
  next
    case False
    from Cons show ?thesis
    proof
      assume "\<exists>pre it post. pool = pre @ it # post \<and> list_all (\<lambda>d. range_size d < sz) pre \<and> sz \<le> range_size it"
      then obtain pre it post where "pool = pre @ it # post" "list_all (\<lambda>d. range_size d < sz) pre" "sz \<le> range_size it" by blast
      then have "a # pool = (a # pre) @ it # post \<and> list_all (\<lambda>d. range_size d < sz) (a # pre) \<and> sz \<le> range_size it"
        using False by simp
      then show ?thesis by blast
    next
      assume "list_all (\<lambda>d. range_size d < sz) pool"
      then show ?thesis using False by (simp add: not_le)
    qed
  qed
qed

text \<open>
  C4. First-fit allocation. \<open>Allocate\<close> scans the ranges in list (address) order: when
  the pool is \<open>pre @ it # post\<close>, every range of \<open>pre\<close> is smaller than the request
  and \<open>it\<close> is large enough, it returns \<open>(start it, start it + sz)\<close>, erases \<open>it\<close>
  when the sizes are equal and advances its start otherwise; when no range is large
  enough it returns the default (empty) range and leaves the pool as it is; one of the
  two cases always applies; and a request of size zero returns an empty range.
\<close>

theorem Allocate_first_fit:
  "(\<forall>pre it post. pool = pre @ it # post \<and> list_all (\<lambda>d. range_size d < sz) pre
        \<and> sz \<le> range_size it
      \<longrightarrow> Allocate sz pool =
            (\<lparr>start = start it, end_addr = start it + sz\<rparr>,
             pre @ (if sz = range_size it then post else it\<lparr>start := start it + sz\<rparr> # post)))
   \<and> (list_all (\<lambda>d. range_size d < sz) pool
      \<longrightarrow> Allocate sz pool = (AddressRange_default, pool))
   \<and> ((\<exists>pre it post. pool = pre @ it # post \<and> list_all (\<lambda>d. range_size d < sz) pre
          \<and> sz \<le> range_size it)
        \<or> list_all (\<lambda>d. range_size d < sz) pool)
   \<and> is_empty_range AddressRange_default
   \<and> is_empty_range (fst (Allocate 0 pool))"
proof -
  have "\<forall>pre it post. pool = pre @ it # post \<and> list_all (\<lambda>d. range_size d < sz) pre
        \<and> sz \<le> range_size it
      \<longrightarrow> Allocate sz pool =
            (\<lparr>start = start it, end_addr = start it + sz\<rparr>,
             pre @ (if sz = range_size it then post else it\<lparr>start := start it + sz\<rparr> # post))"
    using Allocate_fit by blast
  moreover have "list_all (\<lambda>d. range_size d < sz) pool
      \<longrightarrow> Allocate sz pool = (AddressRange_default, pool)"
    using Allocate_none by blast
  moreover note Allocate_cases [of pool sz]
  moreover have "is_empty_range AddressRange_default"
    by (simp add: is_empty_range_def AddressRange_default_def)
  moreover note Allocate_zero [of pool]
  ultimately show ?thesis by blast
qed

theorem Allocate_first_fit_witness:
  "list_all (\<lambda>d. range_size d < 64) [\<lparr>start = 4096, end_addr = 4128\<rparr>]
   \<and> (64 :: size_t) \<le> range_size \<lparr>start = 8192, end_addr = 8256\<rparr>
   \<and> Allocate 64 ([\<lparr>start = 4096, end_addr = 4128\<rparr>] @ \<lparr>start = 8192, end_addr = 8256\<rparr> #
          [\<lparr>start = 12288, end_addr = 16384\<rparr>])
      = (\<lparr>start = 8192, end_addr = 8256\<rparr>,
         [\<lparr>start = 4096, end_addr = 4128\<rparr>, \<lparr>start = 12288, end_addr = 16384\<rparr>])
   \<and> list_all (\<lambda>d. range_size d < 8192)
        [\<lparr>start = 4096, end_addr = 4128\<rparr>, \<lparr>start = 12288, end_addr = 16384\<rparr>]
   \<and> Allocate 8192 [\<lparr>start = 4096, end_addr = 4128\<rparr>, \<lparr>start = 12288, end_addr = 16384\<rparr>]
      = (AddressRange_default,
         [\<lparr>start = 4096, end_addr = 4128\<rparr>, \<lparr>start = 12288, end_addr = 16384\<rparr>])"
  using Allocate_first_fit [of "[\<lparr>start = 4096, end_addr = 4128\<rparr>] @ \<lparr>start = 8192, end_addr = 8256\<rparr> #
          [\<lparr>start = 12288, end_addr = 16384\<rparr>]" 64]
    Allocate_first_fit [of "[\<lparr>start = 4096, end_addr = 4128\<rparr>, \<lparr>start = 12288, end_addr = 16384\<rparr>]" 8192]
  by (simp add: range_size_def AddressRange_default_def kNullAddress_def)

subsection \<open>NativeModule::Lookup\<close>

text \<open>
  The binary search returns the partition point of a list on which the comparison is
  monotone: the comparison fails before the returned index and holds from it on.
\<close>

lemma upper_bound_partition:
  assumes "first + len \<le> length xs"
    and "\<forall>i j. i \<le> j \<and> j < length xs \<and> cmp val (xs ! i) \<longrightarrow> cmp val (xs ! j)"
    and "\<forall>i < first. \<not> cmp val (xs ! i)"
    and "\<forall>i. first + len \<le> i \<and> i < length xs \<longrightarrow> cmp val (xs ! i)"
  shows "upper_bound cmp xs val first len \<le> length xs
       \<and> (\<forall>i < upper_bound cmp xs val first len. \<not> cmp val (xs ! i))
       \<and> (\<forall>i. upper_bound cmp xs val first len \<le> i \<and> i < length xs \<longrightarrow> cmp val (xs ! i))"
  using assms
proof (induction cmp xs val first len rule: upper_bound.induct)
  case (1 cmp xs val first len)
  show ?case
  proof (cases "len = 0")
    case True
    then show ?thesis using "1.prems" by (simp add: upper_bound.simps)
  next
    case False
    define half where "half = len div 2"
    define middle where "middle = first + half"
    have hl: "half < len" using False by (simp add: half_def)
    have mid: "middle < length xs" using hl "1.prems"(1) by (simp add: middle_def)
    show ?thesis
    proof (cases "cmp val (xs ! middle)")
      case True
      have eq: "upper_bound cmp xs val first len = upper_bound cmp xs val first half"
        using False True by (subst upper_bound.simps) (simp add: Let_def half_def middle_def)
      have above: "\<forall>i. first + half \<le> i \<and> i < length xs \<longrightarrow> cmp val (xs ! i)"
      proof (intro allI impI)
        fix i assume "first + half \<le> i \<and> i < length xs"
        then have "middle \<le> i \<and> i < length xs \<and> cmp val (xs ! middle)"
          using True by (simp add: middle_def)
        then show "cmp val (xs ! i)" using "1.prems"(2) by blast
      qed
      have bound: "first + half \<le> length xs" using mid by (simp add: middle_def)
      show ?thesis
        unfolding eq
        by (rule "1.IH"(1) [OF False half_def middle_def True bound "1.prems"(2,3) above])
    next
      case F2: False
      have eq: "upper_bound cmp xs val first len = upper_bound cmp xs val (middle + 1) (len - half - 1)"
        using False F2 by (subst upper_bound.simps) (simp add: Let_def half_def middle_def)
      have below: "\<forall>i < middle + 1. \<not> cmp val (xs ! i)"
      proof (intro allI impI)
        fix i assume "i < middle + 1"
        then have "i \<le> middle" by simp
        then show "\<not> cmp val (xs ! i)" using F2 mid "1.prems"(2) by blast
      qed
      have sum: "middle + 1 + (len - half - 1) = first + len"
        using hl by (simp add: middle_def)
      have bound: "middle + 1 + (len - half - 1) \<le> length xs"
        using sum "1.prems"(1) by simp
      have above: "\<forall>i. middle + 1 + (len - half - 1) \<le> i \<and> i < length xs \<longrightarrow> cmp val (xs ! i)"
        unfolding sum using "1.prems"(4) .
      show ?thesis
        unfolding eq
        by (rule "1.IH"(2) [OF False half_def middle_def F2 bound "1.prems"(2) below above])
    qed
  qed
qed

lemma code_sorted_mono:
  assumes "code_sorted codes"
  shows "\<forall>i j. i \<le> j \<and> j < length codes \<and> WasmCodeUniquePtrComparator pc (codes ! i)
           \<longrightarrow> WasmCodeUniquePtrComparator pc (codes ! j)"
proof (intro allI impI)
  fix i j assume a: "i \<le> j \<and> j < length codes \<and> WasmCodeUniquePtrComparator pc (codes ! i)"
  have "instruction_start (codes ! i) \<le> instruction_start (codes ! j)"
  proof (cases "i = j")
    case True then show ?thesis by simp
  next
    case False
    then have "i < j" using a by simp
    then show ?thesis using assms a by (simp add: code_sorted_def sorted_wrt_iff_nth_less)
  qed
  moreover have "pc < instruction_start (codes ! i)"
    using a by (simp add: WasmCodeUniquePtrComparator_def)
  ultimately have "pc < instruction_start (codes ! j)"
    by (rule less_le_trans [rotated])
  then show "WasmCodeUniquePtrComparator pc (codes ! j)"
    by (simp add: WasmCodeUniquePtrComparator_def)
qed

lemma upper_bound_owned_code:
  assumes "code_sorted codes"
  shows "upper_bound WasmCodeUniquePtrComparator codes pc 0 (length codes) \<le> length codes
    \<and> (\<forall>i < upper_bound WasmCodeUniquePtrComparator codes pc 0 (length codes).
          instruction_start (codes ! i) \<le> pc)
    \<and> (\<forall>i. upper_bound WasmCodeUniquePtrComparator codes pc 0 (length codes) \<le> i \<and> i < length codes
          \<longrightarrow> pc < instruction_start (codes ! i))"
proof -
  let ?k = "upper_bound WasmCodeUniquePtrComparator codes pc 0 (length codes)"
  have "?k \<le> length codes
       \<and> (\<forall>i < ?k. \<not> WasmCodeUniquePtrComparator pc (codes ! i))
       \<and> (\<forall>i. ?k \<le> i \<and> i < length codes \<longrightarrow> WasmCodeUniquePtrComparator pc (codes ! i))"
    by (rule upper_bound_partition) (use code_sorted_mono [OF assms(1)] in auto)
  then show ?thesis
    by (auto simp: WasmCodeUniquePtrComparator_def not_less)
qed

lemma upper_bound_takeWhile:
  assumes "code_sorted codes"
  shows "upper_bound WasmCodeUniquePtrComparator codes pc 0 (length codes)
       = length (takeWhile (\<lambda>c. instruction_start c \<le> pc) codes)"
proof -
  let ?k = "upper_bound WasmCodeUniquePtrComparator codes pc 0 (length codes)"
  let ?t = "length (takeWhile (\<lambda>c. instruction_start c \<le> pc) codes)"
  note ub = upper_bound_owned_code [OF assms, of pc]
  have "\<not> ?t < ?k"
  proof
    assume lt: "?t < ?k"
    then have "?t < length codes" using ub by simp
    then have "\<not> instruction_start (codes ! ?t) \<le> pc" by (rule nth_length_takeWhile)
    then show False using ub lt by blast
  qed
  moreover have "\<not> ?k < ?t"
  proof
    assume lt: "?k < ?t"
    have "takeWhile (\<lambda>c. instruction_start c \<le> pc) codes ! ?k
        \<in> set (takeWhile (\<lambda>c. instruction_start c \<le> pc) codes)"
      using lt by (rule nth_mem)
    then have "instruction_start (takeWhile (\<lambda>c. instruction_start c \<le> pc) codes ! ?k) \<le> pc"
      by (rule set_takeWhileD [THEN conjunct2])
    moreover have "takeWhile (\<lambda>c. instruction_start c \<le> pc) codes ! ?k = codes ! ?k"
      using lt by (rule takeWhile_nth)
    moreover have "?k < length codes"
      using lt length_takeWhile_le [of "\<lambda>c. instruction_start c \<le> pc" codes] by simp
    ultimately show False using ub by (auto simp: not_less [symmetric])
  qed
  ultimately show ?thesis by simp
qed

lemma pred_less: "(k::nat) \<le> n \<Longrightarrow> j < k \<Longrightarrow> k - 1 < n"
  by arith


lemma Lookup_takeWhile:
  assumes "code_sorted (owned_code nm)"
  shows "Lookup nm pc =
    (let k = length (takeWhile (\<lambda>c. instruction_start c \<le> pc) (owned_code nm)) in
     if k = 0 then None
     else if contains (owned_code nm ! (k - 1)) pc then Some (owned_code nm ! (k - 1))
     else None)"
  by (cases "owned_code nm = []")
    (simp_all add: Lookup_def upper_bound_takeWhile [OF assms] Let_def)

lemma Lookup_Some:
  assumes "code_sorted (owned_code nm)" and "Lookup nm pc = Some c"
  shows "c \<in> set (owned_code nm) \<and> contains c pc"
proof -
  let ?k = "length (takeWhile (\<lambda>c. instruction_start c \<le> pc) (owned_code nm))"
  have k: "0 < ?k" "c = owned_code nm ! (?k - 1)" "contains c pc"
    using assms(2) unfolding Lookup_takeWhile [OF assms(1)]
    by (auto simp: Let_def split: if_splits)
  have "?k \<le> length (owned_code nm)" by (rule length_takeWhile_le)
  then have "?k - 1 < length (owned_code nm)" using k(1) by (rule pred_less)
  then show ?thesis using k(2,3) by simp
qed

lemma Lookup_finds:
  assumes "code_sorted (owned_code nm)" and "code_disjoint (owned_code nm)"
    and "c \<in> set (owned_code nm)" and "contains c pc"
  shows "Lookup nm pc = Some c"
proof -
  let ?xs = "owned_code nm"
  let ?k = "upper_bound WasmCodeUniquePtrComparator ?xs pc 0 (length ?xs)"
  note ub = upper_bound_owned_code [OF assms(1), of pc]
  obtain j where j: "j < length ?xs" "?xs ! j = c"
    using assms(3) by (auto simp: in_set_conv_nth)
  have c: "instruction_start c \<le> pc" "pc < instruction_end c"
    using assms(4) by (simp_all add: contains_def instruction_start_def instruction_end_def)
  have jk: "j < ?k"
  proof (rule ccontr)
    assume "\<not> j < ?k"
    then have "pc < instruction_start (?xs ! j)" using ub j(1) by simp
    then show False using c(1) j(2) by simp
  qed
  have "j = ?k - 1"
  proof (rule ccontr)
    assume "j \<noteq> ?k - 1"
    then have lt: "j < ?k - 1" using jk by simp
    have "?k \<le> length ?xs" using ub by simp
    then have "?k - 1 < length ?xs" using jk by (rule pred_less)
    then have "instruction_end (?xs ! j) \<le> instruction_start (?xs ! (?k - 1))"
      using assms(2) lt by (simp add: code_disjoint_def sorted_wrt_iff_nth_less)
    moreover have "instruction_start (?xs ! (?k - 1)) \<le> pc" using ub jk by simp
    ultimately show False using c(2) j(2) by simp
  qed
  then have "?xs ! (?k - 1) = c" using j(2) by simp
  moreover have "?k \<noteq> 0" using jk by simp
  moreover have "?xs \<noteq> []" using assms(3) by auto
  ultimately show ?thesis using assms(4) by (simp add: Lookup_def Let_def)
qed

lemma not_contains_end: "\<not> contains c (instruction_end c)"
  by (simp add: contains_def instruction_end_def)

text \<open>
  C6, as amended. On a code list sorted by instruction start with pairwise disjoint
  ranges, \<open>Lookup\<close> takes the upper bound of \<open>pc\<close> on the instruction starts, returns
  null when that is the beginning of the list, and otherwise returns the preceding code
  object exactly when it contains \<open>pc\<close> under the half-open test
  \<open>start \<le> pc < end\<close>; so it returns a code object exactly when that object is in the
  list and contains \<open>pc\<close>. A lookup of the end address of a code object never returns
  that object, and it returns null exactly when no other code object of the list
  contains that address.
\<close>

theorem Lookup_half_open:
  assumes "code_sorted (owned_code nm)" and "code_disjoint (owned_code nm)"
  shows "Lookup nm pc =
      (let k = length (takeWhile (\<lambda>c. instruction_start c \<le> pc) (owned_code nm)) in
       if k = 0 then None
       else if contains (owned_code nm ! (k - 1)) pc then Some (owned_code nm ! (k - 1))
       else None)
    \<and> (\<forall>c. Lookup nm pc = Some c \<longleftrightarrow> c \<in> set (owned_code nm) \<and> contains c pc)
    \<and> (Lookup nm pc = None \<longleftrightarrow> (\<forall>c \<in> set (owned_code nm). \<not> contains c pc))
    \<and> (\<forall>c. contains c pc \<longleftrightarrow> instruction_start c \<le> pc \<and> pc < instruction_end c)
    \<and> (\<forall>c \<in> set (owned_code nm).
          Lookup nm (instruction_end c) \<noteq> Some c
          \<and> (Lookup nm (instruction_end c) = None
               \<longleftrightarrow> (\<forall>d \<in> set (owned_code nm). \<not> contains d (instruction_end c))))"
proof -
  have iff: "Lookup nm p = Some c \<longleftrightarrow> c \<in> set (owned_code nm) \<and> contains c p" for p c
    using Lookup_Some [OF assms(1)] Lookup_finds [OF assms] by blast
  have none: "Lookup nm p = None \<longleftrightarrow> (\<forall>c \<in> set (owned_code nm). \<not> contains c p)" for p
  proof
    assume "Lookup nm p = None"
    then show "\<forall>c \<in> set (owned_code nm). \<not> contains c p" using iff [of p] by auto
  next
    assume a: "\<forall>c \<in> set (owned_code nm). \<not> contains c p"
    show "Lookup nm p = None"
    proof (cases "Lookup nm p")
      case None then show ?thesis .
    next
      case (Some c) then show ?thesis using iff [of p c] a by blast
    qed
  qed
  have self: "Lookup nm (instruction_end c) \<noteq> Some c" for c
    using iff [of "instruction_end c" c] not_contains_end [of c] by blast
  have cont: "contains c pc \<longleftrightarrow> instruction_start c \<le> pc \<and> pc < instruction_end c" for c
    by (simp add: contains_def instruction_start_def instruction_end_def)
  show ?thesis
    using Lookup_takeWhile [OF assms(1), of pc] iff [of pc] none self cont by blast
qed

theorem Lookup_half_open_witness:
  "code_sorted (owned_code (empty_module\<lparr>owned_code :=
       [code_object 4096 64 kJumpTable, code_object 8192 64 kFunction]\<rparr>))
   \<and> code_disjoint (owned_code (empty_module\<lparr>owned_code :=
       [code_object 4096 64 kJumpTable, code_object 8192 64 kFunction]\<rparr>))
   \<and> code_object 4096 64 kJumpTable \<in> set (owned_code (empty_module\<lparr>owned_code :=
       [code_object 4096 64 kJumpTable, code_object 8192 64 kFunction]\<rparr>))
   \<and> contains (code_object 4096 64 kJumpTable) 4100
   \<and> Lookup (empty_module\<lparr>owned_code :=
       [code_object 4096 64 kJumpTable, code_object 8192 64 kFunction]\<rparr>) 4100
      = Some (code_object 4096 64 kJumpTable)
   \<and> Lookup (empty_module\<lparr>owned_code :=
       [code_object 4096 64 kJumpTable, code_object 8192 64 kFunction]\<rparr>)
        (instruction_end (code_object 4096 64 kJumpTable)) = None"
proof -
  let ?A = "code_object 4096 64 kJumpTable"
  let ?B = "code_object 8192 64 kFunction"
  let ?nm = "empty_module\<lparr>owned_code := [?A, ?B]\<rparr>"
  have st: "instruction_start ?A = 4096" "instruction_start ?B = 8192"
    by (simp_all add: instruction_start_def code_object_def)
  have en: "instruction_end ?A = 4160" "instruction_end ?B = 8256"
    by (simp_all add: instruction_end_def vec_end_def code_object_def)
  have s: "code_sorted (owned_code ?nm)" and d: "code_disjoint (owned_code ?nm)"
    by (simp_all add: code_sorted_def code_disjoint_def st en)
  have m: "?A \<in> set (owned_code ?nm)" by simp
  have c: "contains ?A 4100"
    using st en by (simp add: contains_def instruction_start_def instruction_end_def)
  have e: "\<forall>d \<in> set (owned_code ?nm). \<not> contains d (instruction_end ?A)"
    using st en by (simp add: contains_def instruction_start_def instruction_end_def)
  have "Lookup ?nm 4100 = Some ?A"
    using Lookup_half_open [OF s d, of 4100] m c by blast
  moreover have "Lookup ?nm (instruction_end ?A) = None"
    using Lookup_half_open [OF s d, of "instruction_end ?A"] m e by blast
  ultimately show ?thesis using s d m c by blast
qed

text \<open>
  The claim as stated, that a lookup of a code object's end address returns null, fails
  when the next code object starts at that address: a 64-byte jump table at 4096 and a
  function at 4160, as two successive allocations lay them out.
\<close>

theorem Lookup_end_counterexample:
  "code_sorted (owned_code (empty_module\<lparr>owned_code :=
       [code_object 4096 64 kJumpTable, code_object 4160 64 kFunction]\<rparr>))
   \<and> code_disjoint (owned_code (empty_module\<lparr>owned_code :=
       [code_object 4096 64 kJumpTable, code_object 4160 64 kFunction]\<rparr>))
   \<and> instruction_end (code_object 4096 64 kJumpTable) = 4160
   \<and> Lookup (empty_module\<lparr>owned_code :=
       [code_object 4096 64 kJumpTable, code_object 4160 64 kFunction]\<rparr>)
        (instruction_end (code_object 4096 64 kJumpTable))
      = Some (code_object 4160 64 kFunction)
   \<and> Lookup (empty_module\<lparr>owned_code :=
       [code_object 4096 64 kJumpTable, code_object 4160 64 kFunction]\<rparr>)
        (instruction_end (code_object 4096 64 kJumpTable)) \<noteq> None"
proof -
  let ?A = "code_object 4096 64 kJumpTable"
  let ?B = "code_object 4160 64 kFunction"
  have e: "instruction_end ?A = 4160"
    by (simp add: instruction_end_def vec_end_def code_object_def)
  have st: "instruction_start ?A = 4096" "instruction_start ?B = 4160"
    by (simp_all add: instruction_start_def code_object_def)
  have en: "instruction_end ?B = 4224"
    by (simp add: instruction_end_def vec_end_def code_object_def)
  have ub: "upper_bound WasmCodeUniquePtrComparator [?A, ?B] 4160 0 (Suc (Suc 0)) = Suc (Suc 0)"
    by (simp add: upper_bound.simps [of _ _ _ _ "Suc (Suc 0)"] upper_bound.simps [of _ _ _ _ 0]
        Let_def WasmCodeUniquePtrComparator_def st)
  have c: "contains ?B 4160"
    using st en by (simp add: contains_def instruction_start_def instruction_end_def)
  have l: "Lookup (empty_module\<lparr>owned_code := [?A, ?B]\<rparr>) 4160 = Some ?B"
    by (simp add: Lookup_def ub c)
  have "code_sorted [?A, ?B]" "code_disjoint [?A, ?B]"
    by (simp_all add: code_sorted_def code_disjoint_def st e en)
  then show ?thesis using e l by simp
qed

subsection \<open>The jump table\<close>

text \<open>
  The offset of a slot is a 32-bit product; dividing it by the slot size gives the slot
  index back exactly when the product did not wrap.
\<close>

lemma ucast_offset: "(ucast ((a :: 64 word) + ucast (p :: 32 word) - a) :: 32 word) = p"
  by (simp add: ucast_up_ucast_id is_up_eq source_size target_size)

lemma slot_div:
  fixes k s :: "32 word"
  assumes "0 < s"
  shows "(k * s) div s = k \<longleftrightarrow> unat k * unat s < 2 ^ 32"
proof
  assume lt: "unat k * unat s < 2 ^ 32"
  have "unat ((k * s) div s) = (unat k * unat s) mod 2 ^ 32 div unat s"
    by (simp add: unat_div unat_word_ariths)
  also have "\<dots> = unat k * unat s div unat s" using lt by simp
  also have "\<dots> = unat k" using assms by (simp add: unat_gt_0)
  finally show "(k * s) div s = k" by (simp add: word_unat_eq_iff)
next
  assume eq: "(k * s) div s = k"
  show "unat k * unat s < 2 ^ 32"
  proof (rule ccontr)
    assume "\<not> unat k * unat s < 2 ^ 32"
    then have ge: "2 ^ 32 \<le> unat k * unat s" by simp
    have s0: "0 < unat s" using assms by (simp add: unat_gt_0 word_neq_0_conv)
    have "(unat k * unat s) mod 2 ^ 32 < 2 ^ 32" by simp
    then have "(unat k * unat s) mod 2 ^ 32 < unat k * unat s" using ge by linarith
    then have "(unat k * unat s) mod 2 ^ 32 div unat s < unat k"
      using s0 by (simp add: div_less_iff_less_mult mult.commute)
    moreover have "unat ((k * s) div s) = (unat k * unat s) mod 2 ^ 32 div unat s"
      by (simp add: unat_div unat_word_ariths)
    ultimately show False using eq by simp
  qed
qed

lemma round_trip_eq:
  assumes "jump_table nm = Some jt"
  shows "Option.bind (GetCallTargetForFunction cfg nm f) (GetFunctionIndexFromJumpTableSlot cfg nm)
       = Some (num_imported_functions nm
               + ((f - num_imported_functions nm) * kJumpTableSlotSize cfg) div kJumpTableSlotSize cfg)"
  using assms
  by (simp add: GetCallTargetForFunction_def GetFunctionIndexFromJumpTableSlot_def Let_def
      ucast_up_ucast_id is_up_eq source_size target_size)

text \<open>
  The call is within the assertion of \<^verbatim>\<open>GetCallTargetForFunction\<close> exactly when the
  slot lies in the table; then the slot offset is below the table size. Every declared
  function index is within the assertion when the table holds one slot for each
  declared function.
\<close>

lemma unat_ucast_up: "unat (ucast (k :: 32 word) :: 64 word) = unat k"
proof -
  have "unat k < 2 ^ LENGTH(32)" by (rule unsigned_less)
  then have "unat k < 2 ^ 64" by simp
  then show ?thesis by (simp add: unsigned_ucast_eq take_bit_nat_eq_self)
qed

lemma DCHECK_offset:
  fixes k s :: "32 word" and sz :: "64 word"
  assumes "(ucast k :: 64 word) < sz div ucast s"
  shows "0 < s \<and> unat k * unat s < unat sz"
proof -
  have uk: "unat (ucast k :: 64 word) = unat k" and us: "unat (ucast s :: 64 word) = unat s"
    by (simp_all add: unat_ucast_up)
  have lt: "unat k < unat sz div unat s"
    using assms by (simp add: word_less_nat_alt unat_div uk us)
  then have s0: "0 < unat s" by (cases "unat s = 0") simp_all
  have "Suc (unat k) \<le> unat sz div unat s" using lt by simp
  then have "Suc (unat k) * unat s \<le> unat sz div unat s * unat s" by (rule mult_le_mono1)
  also have "\<dots> \<le> unat sz" by simp
  finally have "unat k * unat s + unat s \<le> unat sz" by simp
  then have "unat k * unat s < unat sz" using s0 by linarith
  moreover have "0 < s" using s0 by (simp add: unat_gt_0 word_neq_0_conv)
  ultimately show ?thesis by simp
qed

lemma declared_function_DCHECK:
  assumes j: "jump_table nm = Some jt"
    and sz: "unat (vec_size (instructions jt))
               = unat (num_functions nm - num_imported_functions nm) * unat (kJumpTableSlotSize cfg)"
    and s: "0 < kJumpTableSlotSize cfg"
    and f: "num_imported_functions nm \<le> f" "f < num_functions nm"
  shows "GetCallTargetForFunction_DCHECK cfg nm f"
proof -
  let ?imp = "num_imported_functions nm"
  let ?s = "kJumpTableSlotSize cfg"
  have uk: "unat (ucast (f - ?imp) :: 64 word) = unat (f - ?imp)"
    and us: "unat (ucast ?s :: 64 word) = unat ?s"
    by (simp_all add: unat_ucast_up)
  have s0: "0 < unat ?s" using s by (simp add: unat_gt_0)
  have "unat (f - ?imp) = unat f - unat ?imp" using f by (simp add: unat_sub)
  moreover have "?imp \<le> num_functions nm" using f by (meson less_imp_le order_trans)
  then have "unat (num_functions nm - ?imp) = unat (num_functions nm) - unat ?imp"
    by (simp add: unat_sub)
  moreover have "unat f < unat (num_functions nm)" using f by (simp add: word_less_nat_alt)
  moreover have "unat ?imp \<le> unat f" using f by (simp add: word_le_nat_alt)
  ultimately have "unat (f - ?imp) < unat (num_functions nm - ?imp)" by linarith
  also have "\<dots> = unat (vec_size (instructions jt)) div unat ?s" using sz s0 by simp
  finally show ?thesis
    using j by (simp add: GetCallTargetForFunction_DCHECK_def word_less_nat_alt unat_div uk us)
qed

text \<open>
  The jump table that \<^verbatim>\<open>CreateEmptyJumpTable\<close> builds has the size of a 32-bit
  product, so the jump table of a module that the constructor returns is smaller than
  \<open>2^32\<close> bytes.
\<close>

lemma CreateEmptyJumpTable_size:
  assumes "CreateEmptyJumpTable cfg env this n s = Inr (code, s')"
  shows "vec_size (instructions code) = ucast (n * kJumpTableSlotSize cfg)
       \<and> unat (vec_size (instructions code)) < 2 ^ 32"
proof -
  have "vec_size (instructions code) = ucast (n * kJumpTableSlotSize cfg)"
    using assms
    by (auto simp add: CreateEmptyJumpTable_def AddOwnedCode.simps Let_def
        split: prod.splits if_splits)
  moreover have "unat (ucast (n * kJumpTableSlotSize cfg) :: 64 word) < 2 ^ 32"
  proof -
    have "unat (n * kJumpTableSlotSize cfg) < 2 ^ LENGTH(32)" by (rule unsigned_less)
    then show ?thesis by (simp add: unat_ucast_up)
  qed
  ultimately show ?thesis by simp
qed

lemma NativeModule_ctor_jump_table:
  assumes "NativeModule_ctor cfg env this nf ni crm code_space uth s = Inr (nm, mgr', tr')"
    and "0 < nf - ni"
  shows "\<exists>jt. jump_table nm = Some jt
           \<and> vec_size (instructions jt) = ucast ((nf - ni) * kJumpTableSlotSize cfg)
           \<and> unat (vec_size (instructions jt)) < 2 ^ 32"
proof -
  let ?nm0 = "\<lparr>owned_code = [], num_functions = nf,
                 num_imported_functions = ni, code_table = [], jump_table = None,
                 free_code_space = [\<lparr>start = address code_space, end_addr = vm_end code_space\<rparr>],
                 allocated_code_space = [], owned_code_space = [code_space],
                 committed_code_space = 0, modification_scope_depth = 0,
                 can_request_more_memory = crm,
                 use_trap_handler = uth, is_executable = False,
                 lazy_compile_frozen = False\<rparr>"
  let ?c = "CreateEmptyJumpTable cfg env this (nf - ni)
                (?nm0\<lparr>code_table := replicate (unat (nf - ni)) None\<rparr>, fst s, snd s)"
  have e: "NativeModule_ctor cfg env this nf ni crm code_space uth s =
      (case ?c of Inl f \<Rightarrow> Inl f
         | Inr (code, nm, mgr, tr) \<Rightarrow> Inr (nm\<lparr>jump_table := Some code\<rparr>, mgr, tr))"
    unfolding NativeModule_ctor_def Let_def by (subst if_P [OF assms(2)]) simp
  show ?thesis
  proof (cases ?c)
    case (Inl f)
    then show ?thesis using assms(1) unfolding e by simp
  next
    case (Inr r)
    obtain code s' where r: "r = (code, s')" by (cases r)
    obtain nm1 mgr1 tr1 where s': "s' = (nm1, mgr1, tr1)" by (cases s')
    have "jump_table nm = Some code" using assms(1) Inr r s' unfolding e by auto
    moreover have "CreateEmptyJumpTable cfg env this (nf - ni)
                (?nm0\<lparr>code_table := replicate (unat (nf - ni)) None\<rparr>, fst s, snd s) = Inr (code, s')"
      using Inr r by simp
    then have "vec_size (instructions code) = ucast ((nf - ni) * kJumpTableSlotSize cfg)
       \<and> unat (vec_size (instructions code)) < 2 ^ 32"
      by (rule CreateEmptyJumpTable_size)
    ultimately show ?thesis by blast
  qed
qed

text \<open>
  C5. Jump table round trip. Let the module have a jump table of at most \<open>2^32\<close>
  bytes, as every table built by \<^verbatim>\<open>CreateEmptyJumpTable\<close> is. Then
  \<open>GetFunctionIndexFromJumpTableSlot (GetCallTargetForFunction f)\<close> returns \<open>f\<close>
  for every function index \<open>f\<close> that meets the assertion of
  \<^verbatim>\<open>GetCallTargetForFunction\<close>, its slot lying in the table; and when the table holds
  one slot of positive size for each declared function, these are all declared function
  indices \<open>num_imported_functions \<le> f < num_functions\<close>.
\<close>

theorem jump_table_round_trip:
  assumes "jump_table nm = Some jt"
    and "unat (vec_size (instructions jt)) \<le> 2 ^ 32"
  shows "(GetCallTargetForFunction_DCHECK cfg nm f \<longrightarrow>
            Option.bind (GetCallTargetForFunction cfg nm f)
              (GetFunctionIndexFromJumpTableSlot cfg nm) = Some f)
    \<and> (0 < kJumpTableSlotSize cfg
        \<and> unat (vec_size (instructions jt))
            = unat (num_functions nm - num_imported_functions nm) * unat (kJumpTableSlotSize cfg)
        \<and> num_imported_functions nm \<le> f \<and> f < num_functions nm
       \<longrightarrow> Option.bind (GetCallTargetForFunction cfg nm f)
             (GetFunctionIndexFromJumpTableSlot cfg nm) = Some f)"
proof -
  let ?imp = "num_imported_functions nm"
  let ?s = "kJumpTableSlotSize cfg"
  have a: "Option.bind (GetCallTargetForFunction cfg nm f)
              (GetFunctionIndexFromJumpTableSlot cfg nm) = Some f"
    if d: "GetCallTargetForFunction_DCHECK cfg nm f"
  proof -
    have "(ucast (f - ?imp) :: 64 word) < vec_size (instructions jt) div ucast ?s"
      using d assms(1) by (simp add: GetCallTargetForFunction_DCHECK_def)
    then have s: "0 < ?s" and "unat (f - ?imp) * unat ?s < unat (vec_size (instructions jt))"
      using DCHECK_offset by blast+
    then have "unat (f - ?imp) * unat ?s < 2 ^ 32" using assms(2) by linarith
    then have "((f - ?imp) * ?s) div ?s = f - ?imp" using slot_div [OF s] by blast
    then show ?thesis unfolding round_trip_eq [OF assms(1)] by simp
  qed
  moreover have "GetCallTargetForFunction_DCHECK cfg nm f"
    if "0 < ?s \<and> unat (vec_size (instructions jt)) = unat (num_functions nm - ?imp) * unat ?s
        \<and> ?imp \<le> f \<and> f < num_functions nm"
    using that declared_function_DCHECK [OF assms(1)] by blast
  ultimately show ?thesis by blast
qed

theorem jump_table_round_trip_witness:
  "jump_table (empty_module\<lparr>num_functions := 12, num_imported_functions := 2,
       jump_table := Some (code_object 4096 160 kJumpTable)\<rparr>)
     = Some (code_object 4096 160 kJumpTable)
   \<and> unat (vec_size (instructions (code_object 4096 160 kJumpTable))) \<le> 2 ^ 32
   \<and> GetCallTargetForFunction_DCHECK example_platform
        (empty_module\<lparr>num_functions := 12, num_imported_functions := 2,
           jump_table := Some (code_object 4096 160 kJumpTable)\<rparr>) 7
   \<and> 0 < kJumpTableSlotSize example_platform
   \<and> unat (vec_size (instructions (code_object 4096 160 kJumpTable)))
       = unat (12 - 2 :: uint32_t) * unat (kJumpTableSlotSize example_platform)
   \<and> (2 :: uint32_t) \<le> 7 \<and> (7 :: uint32_t) < 12
   \<and> GetCallTargetForFunction example_platform
        (empty_module\<lparr>num_functions := 12, num_imported_functions := 2,
           jump_table := Some (code_object 4096 160 kJumpTable)\<rparr>) 7 = Some 4176
   \<and> Option.bind
       (GetCallTargetForFunction example_platform
          (empty_module\<lparr>num_functions := 12, num_imported_functions := 2,
             jump_table := Some (code_object 4096 160 kJumpTable)\<rparr>) 7)
       (GetFunctionIndexFromJumpTableSlot example_platform
          (empty_module\<lparr>num_functions := 12, num_imported_functions := 2,
             jump_table := Some (code_object 4096 160 kJumpTable)\<rparr>))
     = Some 7"
proof -
  let ?jt = "code_object 4096 160 kJumpTable"
  let ?nm = "empty_module\<lparr>num_functions := 12, num_imported_functions := 2,
       jump_table := Some (code_object 4096 160 kJumpTable)\<rparr>"
  have j: "jump_table ?nm = Some ?jt" by simp
  have b: "unat (vec_size (instructions ?jt)) \<le> 2 ^ 32" by (simp add: code_object_def)
  have d: "GetCallTargetForFunction_DCHECK example_platform ?nm 7"
    by (simp add: GetCallTargetForFunction_DCHECK_def example_platform_def code_object_def)
  have s: "0 < kJumpTableSlotSize example_platform" by (simp add: example_platform_def)
  have n: "unat (vec_size (instructions ?jt))
       = unat (12 - 2 :: uint32_t) * unat (kJumpTableSlotSize example_platform)"
    by (simp add: example_platform_def code_object_def)
  have f: "(2 :: uint32_t) \<le> 7" "(7 :: uint32_t) < 12" by simp_all
  have t: "GetCallTargetForFunction example_platform ?nm 7 = Some 4176"
    by (simp add: GetCallTargetForFunction_def example_platform_def code_object_def
        instruction_start_def)
  have r: "Option.bind (GetCallTargetForFunction example_platform ?nm 7)
       (GetFunctionIndexFromJumpTableSlot example_platform ?nm) = Some 7"
    using jump_table_round_trip [OF j b, of example_platform 7] d by blast
  show ?thesis by (intro conjI j b d s n f t r)
qed

text \<open>
  The assertion is needed. A function index whose slot lies beyond the table is outside
  it, and there the 32-bit slot offset can wrap: with 16-byte slots and a one-slot
  table, function \<open>2^28\<close> gets the address of slot 0.
\<close>

lemma round_trip_outside_assertion:
  "\<not> GetCallTargetForFunction_DCHECK example_platform
        (empty_module\<lparr>num_functions := 268435457,
           jump_table := Some (code_object 4096 16 kJumpTable)\<rparr>) 268435456
   \<and> Option.bind
       (GetCallTargetForFunction example_platform
          (empty_module\<lparr>num_functions := 268435457,
             jump_table := Some (code_object 4096 16 kJumpTable)\<rparr>) 268435456)
       (GetFunctionIndexFromJumpTableSlot example_platform
          (empty_module\<lparr>num_functions := 268435457,
             jump_table := Some (code_object 4096 16 kJumpTable)\<rparr>))
     = Some 0"
  by (simp add: GetCallTargetForFunction_DCHECK_def GetCallTargetForFunction_def
      GetFunctionIndexFromJumpTableSlot_def Let_def
      example_platform_def empty_module_def code_object_def instruction_start_def)

subsection \<open>NativeModule::SetExecutable\<close>

lemma SetPermissions_vmems_trace:
  "SetPermissions_vmems env p vs tr = (True, tr') \<Longrightarrow>
   tr' = tr @ map (\<lambda>v. SetPermissions_call (address v) (vm_size v) p) vs"
proof (induction vs arbitrary: tr)
  case Nil then show ?case by simp
next
  case (Cons v vs)
  let ?c = "SetPermissions_call (address v) (vm_size v) p"
  have "SetPermissions_vmems env p vs (tr @ [?c]) = (True, tr')"
    using Cons.prems by (simp add: SetPermissions_def split: if_splits)
  then have "tr' = (tr @ [?c]) @ map (\<lambda>v. SetPermissions_call (address v) (vm_size v) p) vs"
    by (rule Cons.IH)
  then show ?case by simp
qed

lemma SetPermissions_ranges_trace:
  "SetPermissions_ranges cfg env p rs tr = (True, tr') \<Longrightarrow>
   tr' = tr @ map (\<lambda>r. SetPermissions_call (start r)
                        (RoundUp (range_size r) (AllocatePageSize cfg)) p) rs"
proof (induction rs arbitrary: tr)
  case Nil then show ?case by simp
next
  case (Cons r rs)
  let ?c = "SetPermissions_call (start r) (RoundUp (range_size r) (AllocatePageSize cfg)) p"
  have "SetPermissions_ranges cfg env p rs (tr @ [?c]) = (True, tr')"
    using Cons.prems by (simp add: SetPermissions_def Let_def split: if_splits)
  then have "tr' = (tr @ [?c]) @ map (\<lambda>r. SetPermissions_call (start r)
                        (RoundUp (range_size r) (AllocatePageSize cfg)) p) rs"
    by (rule Cons.IH)
  then show ?case by simp
qed

lemma SetExecutable_success:
  assumes "SetExecutable cfg env x (nm, tr) = (True, nm1, tr1)"
  shows "nm1 = nm\<lparr>is_executable := x\<rparr> \<and> tr1 = tr @ SetExecutable_calls cfg nm x"
proof (cases "is_executable nm = x")
  case True
  then show ?thesis using assms by (auto simp: SetExecutable_calls_def)
next
  case False
  show ?thesis
  proof (cases "FLAG_wasm_write_protect_code_memory cfg")
    case F: False
    then show ?thesis using assms False by (auto simp: SetExecutable_calls_def Let_def)
  next
    case T: True
    show ?thesis
    proof (cases "V8_OS_WIN cfg \<and> can_request_more_memory nm")
      case True
      let ?p = "if x then kReadExecute else kReadWrite"
      obtain ok tr' where r: "SetPermissions_vmems env ?p (owned_code_space nm) tr = (ok, tr')"
        by (cases "SetPermissions_vmems env ?p (owned_code_space nm) tr")
      then have "ok" "nm1 = nm\<lparr>is_executable := x\<rparr>" "tr1 = tr'"
        using assms False T True by (auto simp: Let_def split: if_splits)
      then show ?thesis
        using SetPermissions_vmems_trace [of env ?p "owned_code_space nm" tr tr'] r False T True
        by (simp add: SetExecutable_calls_def)
    next
      case W: False
      let ?p = "if x then kReadExecute else kReadWrite"
      obtain ok tr' where r: "SetPermissions_ranges cfg env ?p (allocated_code_space nm) tr = (ok, tr')"
        by (cases "SetPermissions_ranges cfg env ?p (allocated_code_space nm) tr")
      then have "ok" "nm1 = nm\<lparr>is_executable := x\<rparr>" "tr1 = tr'"
        using assms False T W by (auto simp: Let_def split: if_splits)
      then show ?thesis
        using SetPermissions_ranges_trace [of cfg env ?p "allocated_code_space nm" tr tr'] r False T W
        by (auto simp add: SetExecutable_calls_def)
    qed
  qed
qed

lemma SetExecutable_failure:
  "SetExecutable cfg env x (nm, tr) = (False, nm1, tr1) \<Longrightarrow> nm1 = nm \<and> is_executable nm \<noteq> x"
  by (auto simp: Let_def split: if_splits prod.splits)

lemma RoundUp_64: "RoundUp 64 4096 = 4096"
  by (simp add: RoundUp_def)

text \<open>
  C8, as amended. A call of \<open>SetExecutable x\<close> on a module whose \<open>is_executable\<close>
  already equals \<open>x\<close> changes no permission and returns true. In the sequence
  \<open>SetExecutable x; SetExecutable x\<close>, when the first call returns true the second one
  changes nothing and returns true, so every permission change of the sequence is issued
  by the first call: none when the state already matched or write protection is off,
  otherwise one for each allocated range (on Windows, for a growable module, one for
  each reservation).
\<close>

theorem SetExecutable_twice:
  "(is_executable nm = x \<longrightarrow> SetExecutable cfg env x (nm, tr) = (True, nm, tr))
   \<and> (\<forall>nm1 tr1. SetExecutable cfg env x (nm, tr) = (True, nm1, tr1) \<longrightarrow>
         tr1 = tr @ SetExecutable_calls cfg nm x
         \<and> SetExecutable cfg env x (nm1, tr1) = (True, nm1, tr1))"
proof (intro conjI allI impI)
  assume "is_executable nm = x"
  then show "SetExecutable cfg env x (nm, tr) = (True, nm, tr)" by simp
next
  fix nm1 tr1
  assume a: "SetExecutable cfg env x (nm, tr) = (True, nm1, tr1)"
  show "tr1 = tr @ SetExecutable_calls cfg nm x"
    using SetExecutable_success [OF a] by simp
next
  fix nm1 tr1
  assume a: "SetExecutable cfg env x (nm, tr) = (True, nm1, tr1)"
  have "is_executable nm1 = x"
    using SetExecutable_success [OF a] by simp
  then show "SetExecutable cfg env x (nm1, tr1) = (True, nm1, tr1)" by simp
qed

theorem SetExecutable_twice_witness:
  "SetExecutable example_platform permissive_environment True
     (empty_module\<lparr>allocated_code_space := [\<lparr>start = 4096, end_addr = 4160\<rparr>]\<rparr>, [])
   = (True,
      empty_module\<lparr>allocated_code_space := [\<lparr>start = 4096, end_addr = 4160\<rparr>],
        is_executable := True\<rparr>,
      [SetPermissions_call 4096 4096 kReadExecute])
   \<and> SetExecutable example_platform permissive_environment True
     (empty_module\<lparr>allocated_code_space := [\<lparr>start = 4096, end_addr = 4160\<rparr>],
        is_executable := True\<rparr>,
      [SetPermissions_call 4096 4096 kReadExecute])
   = (True,
      empty_module\<lparr>allocated_code_space := [\<lparr>start = 4096, end_addr = 4160\<rparr>],
        is_executable := True\<rparr>,
      [SetPermissions_call 4096 4096 kReadExecute])
   \<and> is_executable (empty_module\<lparr>is_executable := True\<rparr>) = True
   \<and> SetExecutable example_platform permissive_environment True
        (empty_module\<lparr>is_executable := True\<rparr>, [])
      = (True, empty_module\<lparr>is_executable := True\<rparr>, [])"
proof -
  let ?nm = "empty_module\<lparr>allocated_code_space := [\<lparr>start = 4096, end_addr = 4160\<rparr>]\<rparr>"
  have first: "SetExecutable example_platform permissive_environment True (?nm, [])
     = (True, ?nm\<lparr>is_executable := True\<rparr>, [SetPermissions_call 4096 4096 kReadExecute])"
    by (simp add: example_platform_def permissive_environment_def empty_module_def
        SetPermissions_def range_size_def RoundUp_64)
  show ?thesis
    using first SetExecutable_twice [of ?nm True example_platform permissive_environment "[]"]
      SetExecutable_twice [of "empty_module\<lparr>is_executable := True\<rparr>" True example_platform
        permissive_environment "[]"]
    by simp
qed

text \<open>
  The claim as stated, exactly one permission change for the sequence, fails for a
  module with two allocated ranges: the first call changes the permission of both.
\<close>

theorem SetExecutable_twice_counterexample:
  "SetExecutable example_platform permissive_environment True
     (empty_module\<lparr>allocated_code_space :=
        [\<lparr>start = 4096, end_addr = 4160\<rparr>, \<lparr>start = 1048576, end_addr = 1048640\<rparr>]\<rparr>, [])
   = (True,
      empty_module\<lparr>allocated_code_space :=
        [\<lparr>start = 4096, end_addr = 4160\<rparr>, \<lparr>start = 1048576, end_addr = 1048640\<rparr>],
        is_executable := True\<rparr>,
      [SetPermissions_call 4096 4096 kReadExecute, SetPermissions_call 1048576 4096 kReadExecute])
   \<and> SetExecutable example_platform permissive_environment True
     (empty_module\<lparr>allocated_code_space :=
        [\<lparr>start = 4096, end_addr = 4160\<rparr>, \<lparr>start = 1048576, end_addr = 1048640\<rparr>],
        is_executable := True\<rparr>,
      [SetPermissions_call 4096 4096 kReadExecute, SetPermissions_call 1048576 4096 kReadExecute])
   = (True,
      empty_module\<lparr>allocated_code_space :=
        [\<lparr>start = 4096, end_addr = 4160\<rparr>, \<lparr>start = 1048576, end_addr = 1048640\<rparr>],
        is_executable := True\<rparr>,
      [SetPermissions_call 4096 4096 kReadExecute, SetPermissions_call 1048576 4096 kReadExecute])
   \<and> length (permission_changes
        [SetPermissions_call 4096 4096 kReadExecute, SetPermissions_call 1048576 4096 kReadExecute])
      \<noteq> 1"
  by (simp add: example_platform_def permissive_environment_def empty_module_def
      SetPermissions_def range_size_def RoundUp_64 permission_changes_def)

subsection \<open>NativeModuleModificationScope\<close>

lemma SetExecutable_calls_depth [simp]:
  "SetExecutable_calls cfg (nm\<lparr>modification_scope_depth := d\<rparr>) x = SetExecutable_calls cfg nm x"
  by (simp add: SetExecutable_calls_def)

lemma enter_outer:
  assumes "modification_scope_depth nm = 0"
    and "NativeModuleModificationScope_enter cfg env (Some nm, tr) = Inr (nm', tr')"
  shows "nm' = Some (nm\<lparr>modification_scope_depth := 1, is_executable := False\<rparr>)
       \<and> tr' = tr @ SetExecutable_calls cfg nm False"
proof -
  let ?nm1 = "nm\<lparr>modification_scope_depth := 1\<rparr>"
  obtain ok nm2 tr2 where r: "SetExecutable cfg env False (?nm1, tr) = (ok, nm2, tr2)"
    by (cases "SetExecutable cfg env False (?nm1, tr)")
  then have "ok" "nm' = Some nm2" "tr' = tr2"
    using assms by (simp_all add: Let_def del: SetExecutable.simps split: if_splits)
  then show ?thesis using SetExecutable_success [of cfg env False ?nm1 tr nm2 tr2] r by simp
qed

lemma exit_outer:
  assumes "modification_scope_depth nm = 1"
    and "NativeModuleModificationScope_exit cfg env (Some nm, tr) = Inr (nm', tr')"
  shows "nm' = Some (nm\<lparr>modification_scope_depth := 0, is_executable := True\<rparr>)
       \<and> tr' = tr @ SetExecutable_calls cfg nm True"
proof -
  let ?nm1 = "nm\<lparr>modification_scope_depth := 0\<rparr>"
  obtain ok nm2 tr2 where r: "SetExecutable cfg env True (?nm1, tr) = (ok, nm2, tr2)"
    by (cases "SetExecutable cfg env True (?nm1, tr)")
  then have "ok" "nm' = Some nm2" "tr' = tr2"
    using assms by (simp_all add: Let_def del: SetExecutable.simps split: if_splits)
  then show ?thesis using SetExecutable_success [of cfg env True ?nm1 tr nm2 tr2] r by simp
qed

lemma enter_inner:
  "modification_scope_depth nm \<noteq> 0 \<Longrightarrow>
   NativeModuleModificationScope_enter cfg env (Some nm, tr)
     = Inr (Some (nm\<lparr>modification_scope_depth := modification_scope_depth nm + 1\<rparr>), tr)"
  by (simp add: Let_def del: SetExecutable.simps)

lemma exit_inner:
  "modification_scope_depth nm \<noteq> 1 \<Longrightarrow>
   NativeModuleModificationScope_exit cfg env (Some nm, tr)
     = Inr (Some (nm\<lparr>modification_scope_depth := modification_scope_depth nm - 1\<rparr>), tr)"
  by (simp add: Let_def del: SetExecutable.simps)

lemma nested_scopes:
  "nested (modification_scope_depth nm) ops \<Longrightarrow>
   scopes cfg env ops (Some nm, tr)
     = Inr (Some (nm\<lparr>modification_scope_depth := modification_scope_depth nm + balance ops\<rparr>), tr)"
proof (induction ops arbitrary: nm)
  case Nil
  then show ?case by simp
next
  case (Cons enter ops)
  show ?case
  proof (cases enter)
    case True
    let ?nm1 = "nm\<lparr>modification_scope_depth := modification_scope_depth nm + 1\<rparr>"
    have d: "modification_scope_depth nm \<noteq> 0" and n: "nested (modification_scope_depth ?nm1) ops"
      using Cons.prems True by simp_all
    have "scopes cfg env (enter # ops) (Some nm, tr) = scopes cfg env ops (Some ?nm1, tr)"
      using True enter_inner [OF d, of cfg env tr]
      by (simp del: NativeModuleModificationScope_enter.simps)
    also have "\<dots> = Inr (Some (?nm1\<lparr>modification_scope_depth :=
                   modification_scope_depth ?nm1 + balance ops\<rparr>), tr)"
      using n by (rule Cons.IH)
    finally show ?thesis using True by (simp add: add.assoc)
  next
    case False
    let ?nm1 = "nm\<lparr>modification_scope_depth := modification_scope_depth nm - 1\<rparr>"
    have d: "modification_scope_depth nm \<noteq> 1" and n: "nested (modification_scope_depth ?nm1) ops"
      using Cons.prems False by simp_all
    have "scopes cfg env (enter # ops) (Some nm, tr) = scopes cfg env ops (Some ?nm1, tr)"
      using False exit_inner [OF d, of cfg env tr]
      by (simp del: NativeModuleModificationScope_exit.simps)
    also have "\<dots> = Inr (Some (?nm1\<lparr>modification_scope_depth :=
                   modification_scope_depth ?nm1 + balance ops\<rparr>), tr)"
      using n by (rule Cons.IH)
    finally show ?thesis using False by simp
  qed
qed

text \<open>
  The outcome of \<open>SetExecutable\<close> in terms of the OS. The loops attempt the calls of
  \<open>SetExecutable_calls\<close> in order and stop at the first one that the OS refuses;
  \<open>SetExecutable\<close> succeeds, and updates \<^verbatim>\<open>is_executable_\<close>, exactly when the OS
  grants every one of them.
\<close>

lemma calls_issued_succeed:
  "calls_succeed env tr cs \<Longrightarrow> calls_issued env tr cs = cs"
  by (induction cs arbitrary: tr) simp_all

lemma SetPermissions_vmems_outcome:
  "SetPermissions_vmems env p vs tr =
     (calls_succeed env tr (map (\<lambda>v. SetPermissions_call (address v) (vm_size v) p) vs),
      tr @ calls_issued env tr (map (\<lambda>v. SetPermissions_call (address v) (vm_size v) p) vs))"
  by (induction vs arbitrary: tr) (simp_all add: SetPermissions_def)

lemma SetPermissions_ranges_outcome:
  "SetPermissions_ranges cfg env p rs tr =
     (calls_succeed env tr
        (map (\<lambda>r. SetPermissions_call (start r) (RoundUp (range_size r) (AllocatePageSize cfg)) p) rs),
      tr @ calls_issued env tr
        (map (\<lambda>r. SetPermissions_call (start r) (RoundUp (range_size r) (AllocatePageSize cfg)) p) rs))"
  by (induction rs arbitrary: tr) (simp_all add: SetPermissions_def Let_def)

lemma SetExecutable_outcome:
  "SetExecutable cfg env x (nm, tr) =
     (calls_succeed env tr (SetExecutable_calls cfg nm x),
      if calls_succeed env tr (SetExecutable_calls cfg nm x) then nm\<lparr>is_executable := x\<rparr> else nm,
      tr @ calls_issued env tr (SetExecutable_calls cfg nm x))"
proof (cases "is_executable nm = x")
  case True
  have e: "nm\<lparr>is_executable := x\<rparr> = nm" using True by auto
  have c: "SetExecutable_calls cfg nm x = []" using True by (simp add: SetExecutable_calls_def)
  have "SetExecutable cfg env x (nm, tr) = (True, nm, tr)" using True by simp
  then show ?thesis unfolding c e by simp
next
  case False
  show ?thesis
  proof (cases "FLAG_wasm_write_protect_code_memory cfg")
    case F: False
    have c: "SetExecutable_calls cfg nm x = []" using F by (simp add: SetExecutable_calls_def)
    have "SetExecutable cfg env x (nm, tr) = (True, nm\<lparr>is_executable := x\<rparr>, tr)"
      using False F by simp
    then show ?thesis unfolding c by simp
  next
    case T: True
    let ?p = "if x then kReadExecute else kReadWrite"
    show ?thesis
    proof (cases "V8_OS_WIN cfg \<and> can_request_more_memory nm")
      case True
      have c: "SetExecutable_calls cfg nm x =
          map (\<lambda>v. SetPermissions_call (address v) (vm_size v) ?p) (owned_code_space nm)"
        using False T True by (simp add: SetExecutable_calls_def)
      have "SetExecutable cfg env x (nm, tr) =
          (case SetPermissions_vmems env ?p (owned_code_space nm) tr of
               (ok, tr') \<Rightarrow> if \<not> ok then (False, nm, tr')
                            else (True, nm\<lparr>is_executable := x\<rparr>, tr'))"
        using False T True by (simp add: Let_def)
      then show ?thesis unfolding c SetPermissions_vmems_outcome by simp
    next
      case W: False
      have c: "SetExecutable_calls cfg nm x =
          map (\<lambda>r. SetPermissions_call (start r)
                      (RoundUp (range_size r) (AllocatePageSize cfg)) ?p) (allocated_code_space nm)"
        using False T W by (auto simp add: SetExecutable_calls_def)
      have "SetExecutable cfg env x (nm, tr) =
          (case SetPermissions_ranges cfg env ?p (allocated_code_space nm) tr of
               (ok, tr') \<Rightarrow> if \<not> ok then (False, nm, tr')
                            else (True, nm\<lparr>is_executable := x\<rparr>, tr'))"
        using False T W by (auto simp add: Let_def)
      then show ?thesis unfolding c SetPermissions_ranges_outcome by simp
    qed
  qed
qed


lemma enter_outcome:
  assumes "modification_scope_depth nm = 0"
  shows "NativeModuleModificationScope_enter cfg env (Some nm, tr) =
     (if calls_succeed env tr (SetExecutable_calls cfg nm False)
      then Inr (Some (nm\<lparr>modification_scope_depth := 1, is_executable := False\<rparr>),
                tr @ SetExecutable_calls cfg nm False)
      else Inl CHECK_failed)"
  using assms
  by (simp add: Let_def SetExecutable_outcome calls_issued_succeed del: SetExecutable.simps)

lemma exit_outcome:
  assumes "modification_scope_depth nm = 1"
  shows "NativeModuleModificationScope_exit cfg env (Some nm, tr) =
     (if calls_succeed env tr (SetExecutable_calls cfg nm True)
      then Inr (Some (nm\<lparr>modification_scope_depth := 0, is_executable := True\<rparr>),
                tr @ SetExecutable_calls cfg nm True)
      else Inl CHECK_failed)"
  using assms
  by (simp add: Let_def SetExecutable_outcome calls_issued_succeed del: SetExecutable.simps)

lemma calls_succeed_iff:
  "calls_succeed env tr cs \<longleftrightarrow> (\<forall>i < length cs. call_ok env (tr @ take i cs) (cs ! i))"
proof (induction cs arbitrary: tr)
  case Nil
  then show ?case by simp
next
  case (Cons c cs)
  have "(\<forall>i < length (c # cs). call_ok env (tr @ take i (c # cs)) ((c # cs) ! i))
      \<longleftrightarrow> call_ok env tr c \<and> (\<forall>i < length cs. call_ok env ((tr @ [c]) @ take i cs) (cs ! i))"
    by (auto simp: less_Suc_eq_0_disj)
  then show ?case using Cons.IH [of "tr @ [c]"] by simp
qed

text \<open>
  C7, as amended. The modification scope latch. Entering a scope at depth 0 attempts the
  permission changes of \<open>SetExecutable false\<close>; it is fatal exactly when the OS refuses
  one of them, and otherwise leaves the module at depth 1 and marked not executable,
  with exactly these calls issued. Leaving a scope at depth 1 does the same with
  \<open>SetExecutable true\<close> and leaves the module at depth 0 and marked executable. The
  permission changes are none when the module is already in the requested state or
  \<^verbatim>\<open>FLAG_wasm_write_protect_code_memory\<close> is off; otherwise there is one for each
  reservation (Windows, growable module) or for each allocated range, to read-write on
  entry and to read-execute on exit. A scope entered at another depth, or left at a
  depth other than 1, only changes the depth; hence a nested sequence of scopes issues
  no OS call and leaves the module as it is, up to the depth.
\<close>

theorem modification_scope_latch:
  "(modification_scope_depth nm = 0 \<longrightarrow>
      NativeModuleModificationScope_enter cfg env (Some nm, tr)
        = (if calls_succeed env tr (SetExecutable_calls cfg nm False)
           then Inr (Some (nm\<lparr>modification_scope_depth := 1, is_executable := False\<rparr>),
                     tr @ SetExecutable_calls cfg nm False)
           else Inl CHECK_failed))
   \<and> (modification_scope_depth nm = 1 \<longrightarrow>
      NativeModuleModificationScope_exit cfg env (Some nm, tr)
        = (if calls_succeed env tr (SetExecutable_calls cfg nm True)
           then Inr (Some (nm\<lparr>modification_scope_depth := 0, is_executable := True\<rparr>),
                     tr @ SetExecutable_calls cfg nm True)
           else Inl CHECK_failed))
   \<and> (is_executable nm = x \<or> \<not> FLAG_wasm_write_protect_code_memory cfg \<longrightarrow>
        SetExecutable_calls cfg nm x = [])
   \<and> (is_executable nm \<noteq> x \<and> FLAG_wasm_write_protect_code_memory cfg \<longrightarrow>
        SetExecutable_calls cfg nm x =
          (if V8_OS_WIN cfg \<and> can_request_more_memory nm
           then map (\<lambda>v. SetPermissions_call (address v) (vm_size v)
                           (if x then kReadExecute else kReadWrite)) (owned_code_space nm)
           else map (\<lambda>r. SetPermissions_call (start r)
                           (RoundUp (range_size r) (AllocatePageSize cfg))
                           (if x then kReadExecute else kReadWrite)) (allocated_code_space nm)))
   \<and> (modification_scope_depth nm \<noteq> 0 \<longrightarrow>
        NativeModuleModificationScope_enter cfg env (Some nm, tr)
          = Inr (Some (nm\<lparr>modification_scope_depth := modification_scope_depth nm + 1\<rparr>), tr))
   \<and> (modification_scope_depth nm \<noteq> 1 \<longrightarrow>
        NativeModuleModificationScope_exit cfg env (Some nm, tr)
          = Inr (Some (nm\<lparr>modification_scope_depth := modification_scope_depth nm - 1\<rparr>), tr))
   \<and> (\<forall>ops. nested (modification_scope_depth nm) ops \<longrightarrow>
        scopes cfg env ops (Some nm, tr)
          = Inr (Some (nm\<lparr>modification_scope_depth :=
                          modification_scope_depth nm + balance ops\<rparr>), tr))"
proof -
  have "is_executable nm = x \<or> \<not> FLAG_wasm_write_protect_code_memory cfg \<longrightarrow>
        SetExecutable_calls cfg nm x = []"
    by (simp add: SetExecutable_calls_def)
  moreover have "is_executable nm \<noteq> x \<and> FLAG_wasm_write_protect_code_memory cfg \<longrightarrow>
        SetExecutable_calls cfg nm x =
          (if V8_OS_WIN cfg \<and> can_request_more_memory nm
           then map (\<lambda>v. SetPermissions_call (address v) (vm_size v)
                           (if x then kReadExecute else kReadWrite)) (owned_code_space nm)
           else map (\<lambda>r. SetPermissions_call (start r)
                           (RoundUp (range_size r) (AllocatePageSize cfg))
                           (if x then kReadExecute else kReadWrite)) (allocated_code_space nm))"
    by (simp add: SetExecutable_calls_def)
  ultimately show ?thesis
    using enter_outcome [of nm cfg env tr] exit_outcome [of nm cfg env tr]
      enter_inner [of nm cfg env tr] exit_inner [of nm cfg env tr]
      nested_scopes [of nm _ cfg env tr]
    by blast
qed

theorem modification_scope_latch_witness:
  "modification_scope_depth (empty_module\<lparr>allocated_code_space := [\<lparr>start = 4096, end_addr = 4160\<rparr>],
       is_executable := True\<rparr>) = 0
   \<and> SetExecutable_calls example_platform
        (empty_module\<lparr>allocated_code_space := [\<lparr>start = 4096, end_addr = 4160\<rparr>],
           is_executable := True\<rparr>) False
      = [SetPermissions_call 4096 4096 kReadWrite]
   \<and> calls_succeed permissive_environment [] [SetPermissions_call 4096 4096 kReadWrite]
   \<and> NativeModuleModificationScope_enter example_platform permissive_environment
       (Some (empty_module\<lparr>allocated_code_space := [\<lparr>start = 4096, end_addr = 4160\<rparr>],
                is_executable := True\<rparr>), [])
     = Inr (Some (empty_module\<lparr>allocated_code_space := [\<lparr>start = 4096, end_addr = 4160\<rparr>],
                is_executable := False, modification_scope_depth := 1\<rparr>),
            [SetPermissions_call 4096 4096 kReadWrite])
   \<and> nested 1 [True, False]
   \<and> scopes example_platform permissive_environment [True, False]
       (Some (empty_module\<lparr>allocated_code_space := [\<lparr>start = 4096, end_addr = 4160\<rparr>],
                is_executable := False, modification_scope_depth := 1\<rparr>),
        [SetPermissions_call 4096 4096 kReadWrite])
     = Inr (Some (empty_module\<lparr>allocated_code_space := [\<lparr>start = 4096, end_addr = 4160\<rparr>],
                is_executable := False, modification_scope_depth := 1\<rparr>),
            [SetPermissions_call 4096 4096 kReadWrite])
   \<and> NativeModuleModificationScope_enter example_platform permissive_environment
       (Some (empty_module\<lparr>allocated_code_space := [\<lparr>start = 4096, end_addr = 4160\<rparr>],
                is_executable := False, modification_scope_depth := 1\<rparr>),
        [SetPermissions_call 4096 4096 kReadWrite])
     = Inr (Some (empty_module\<lparr>allocated_code_space := [\<lparr>start = 4096, end_addr = 4160\<rparr>],
                is_executable := False, modification_scope_depth := 2\<rparr>),
            [SetPermissions_call 4096 4096 kReadWrite])
   \<and> NativeModuleModificationScope_exit example_platform permissive_environment
       (Some (empty_module\<lparr>allocated_code_space := [\<lparr>start = 4096, end_addr = 4160\<rparr>],
                is_executable := False, modification_scope_depth := 2\<rparr>),
        [SetPermissions_call 4096 4096 kReadWrite])
     = Inr (Some (empty_module\<lparr>allocated_code_space := [\<lparr>start = 4096, end_addr = 4160\<rparr>],
                is_executable := False, modification_scope_depth := 1\<rparr>),
            [SetPermissions_call 4096 4096 kReadWrite])
   \<and> NativeModuleModificationScope_exit example_platform permissive_environment
       (Some (empty_module\<lparr>allocated_code_space := [\<lparr>start = 4096, end_addr = 4160\<rparr>],
                is_executable := False, modification_scope_depth := 1\<rparr>),
        [SetPermissions_call 4096 4096 kReadWrite])
     = Inr (Some (empty_module\<lparr>allocated_code_space := [\<lparr>start = 4096, end_addr = 4160\<rparr>],
                is_executable := True, modification_scope_depth := 0\<rparr>),
            [SetPermissions_call 4096 4096 kReadWrite, SetPermissions_call 4096 4096 kReadExecute])
   \<and> \<not> calls_succeed
          (permissive_environment\<lparr>SetPermissions_ok := \<lambda>tr addr sz permission. False\<rparr>) []
          [SetPermissions_call 4096 4096 kReadWrite]
   \<and> NativeModuleModificationScope_enter example_platform
       (permissive_environment\<lparr>SetPermissions_ok := \<lambda>tr addr sz permission. False\<rparr>)
       (Some (empty_module\<lparr>allocated_code_space := [\<lparr>start = 4096, end_addr = 4160\<rparr>],
                is_executable := True\<rparr>), [])
     = Inl CHECK_failed
   \<and> SetExecutable_calls
        (example_platform\<lparr>V8_OS_WIN := True\<rparr>)
        (empty_module\<lparr>owned_code_space := [\<lparr>address = 4096, vm_size = 65536\<rparr>],
           allocated_code_space := [\<lparr>start = 4096, end_addr = 4160\<rparr>],
           can_request_more_memory := True, is_executable := True\<rparr>) False
      = [SetPermissions_call 4096 65536 kReadWrite]
   \<and> SetExecutable_calls
        (example_platform\<lparr>FLAG_wasm_write_protect_code_memory := False\<rparr>)
        (empty_module\<lparr>allocated_code_space := [\<lparr>start = 4096, end_addr = 4160\<rparr>],
           is_executable := True\<rparr>) False
      = []"
proof -
  let ?nm0 = "empty_module\<lparr>allocated_code_space := [\<lparr>start = 4096, end_addr = 4160\<rparr>],
       is_executable := True\<rparr>"
  let ?nm1 = "empty_module\<lparr>allocated_code_space := [\<lparr>start = 4096, end_addr = 4160\<rparr>],
                is_executable := False, modification_scope_depth := 1\<rparr>"
  let ?nm2 = "empty_module\<lparr>allocated_code_space := [\<lparr>start = 4096, end_addr = 4160\<rparr>],
                is_executable := False, modification_scope_depth := 2\<rparr>"
  let ?nmw = "empty_module\<lparr>owned_code_space := [\<lparr>address = 4096, vm_size = 65536\<rparr>],
           allocated_code_space := [\<lparr>start = 4096, end_addr = 4160\<rparr>],
           can_request_more_memory := True, is_executable := True\<rparr>"
  let ?tr1 = "[SetPermissions_call 4096 4096 kReadWrite]"
  let ?fail = "permissive_environment\<lparr>SetPermissions_ok := \<lambda>tr addr sz permission. False\<rparr>"
  let ?win = "example_platform\<lparr>V8_OS_WIN := True\<rparr>"
  let ?off = "example_platform\<lparr>FLAG_wasm_write_protect_code_memory := False\<rparr>"
  have d0: "modification_scope_depth ?nm0 = 0" by (simp add: empty_module_def)
  have d1: "modification_scope_depth ?nm1 = 1" by simp
  have p0: "is_executable ?nm0 \<noteq> False \<and> FLAG_wasm_write_protect_code_memory example_platform"
    and q0: "\<not> (V8_OS_WIN example_platform \<and> can_request_more_memory ?nm0)"
    by (simp_all add: example_platform_def empty_module_def)
  have c0: "SetExecutable_calls example_platform ?nm0 False = ?tr1"
  proof -
    have "SetExecutable_calls example_platform ?nm0 False =
        map (\<lambda>r. SetPermissions_call (start r)
                   (RoundUp (range_size r) (AllocatePageSize example_platform))
                   (if False then kReadExecute else kReadWrite)) (allocated_code_space ?nm0)"
      using modification_scope_latch [of ?nm0 example_platform permissive_environment "[]" False] p0 q0
      by presburger
    then show ?thesis by (simp add: range_size_def RoundUp_64 example_platform_def)
  qed
  have p1: "is_executable ?nm1 \<noteq> True \<and> FLAG_wasm_write_protect_code_memory example_platform"
    and q1: "\<not> (V8_OS_WIN example_platform \<and> can_request_more_memory ?nm1)"
    by (simp_all add: example_platform_def empty_module_def)
  have c1: "SetExecutable_calls example_platform ?nm1 True = [SetPermissions_call 4096 4096 kReadExecute]"
  proof -
    have "SetExecutable_calls example_platform ?nm1 True =
        map (\<lambda>r. SetPermissions_call (start r)
                   (RoundUp (range_size r) (AllocatePageSize example_platform))
                   (if True then kReadExecute else kReadWrite)) (allocated_code_space ?nm1)"
      using modification_scope_latch [of ?nm1 example_platform permissive_environment "[]" True] p1 q1
      by presburger
    then show ?thesis by (simp add: range_size_def RoundUp_64 example_platform_def)
  qed
  have ok0: "calls_succeed permissive_environment [] ?tr1"
    by (simp add: permissive_environment_def)
  have ok1: "calls_succeed permissive_environment ?tr1 [SetPermissions_call 4096 4096 kReadExecute]"
    by (simp add: permissive_environment_def)
  have e: "NativeModuleModificationScope_enter example_platform permissive_environment (Some ?nm0, [])
      = Inr (Some ?nm1, ?tr1)"
  proof -
    have "NativeModuleModificationScope_enter example_platform permissive_environment (Some ?nm0, [])
      = (if calls_succeed permissive_environment [] (SetExecutable_calls example_platform ?nm0 False)
         then Inr (Some (?nm0\<lparr>modification_scope_depth := 1, is_executable := False\<rparr>),
                   [] @ SetExecutable_calls example_platform ?nm0 False)
         else Inl CHECK_failed)"
      using modification_scope_latch [of ?nm0 example_platform permissive_environment "[]" False] d0
      by blast
    then show ?thesis unfolding c0 using ok0
      by (simp del: NativeModuleModificationScope_enter.simps)
  qed
  have x: "NativeModuleModificationScope_exit example_platform permissive_environment (Some ?nm1, ?tr1)
      = Inr (Some (empty_module\<lparr>allocated_code_space := [\<lparr>start = 4096, end_addr = 4160\<rparr>],
                is_executable := True, modification_scope_depth := 0\<rparr>),
            [SetPermissions_call 4096 4096 kReadWrite, SetPermissions_call 4096 4096 kReadExecute])"
  proof -
    have "NativeModuleModificationScope_exit example_platform permissive_environment (Some ?nm1, ?tr1)
      = (if calls_succeed permissive_environment ?tr1 (SetExecutable_calls example_platform ?nm1 True)
         then Inr (Some (?nm1\<lparr>modification_scope_depth := 0, is_executable := True\<rparr>),
                   ?tr1 @ SetExecutable_calls example_platform ?nm1 True)
         else Inl CHECK_failed)"
      using modification_scope_latch [of ?nm1 example_platform permissive_environment ?tr1 True] d1
      by blast
    then show ?thesis unfolding c1 using ok1
      by (simp del: NativeModuleModificationScope_exit.simps)
  qed
  have n: "nested 1 [True, False]" by simp
  have s: "scopes example_platform permissive_environment [True, False] (Some ?nm1, ?tr1)
      = Inr (Some ?nm1, ?tr1)"
    using modification_scope_latch [of ?nm1 example_platform permissive_environment ?tr1 True] n
    by simp
  have i1: "NativeModuleModificationScope_enter example_platform permissive_environment
       (Some ?nm1, ?tr1) = Inr (Some ?nm2, ?tr1)"
    using modification_scope_latch [of ?nm1 example_platform permissive_environment ?tr1 True]
    by simp
  have i2: "NativeModuleModificationScope_exit example_platform permissive_environment
       (Some ?nm2, ?tr1) = Inr (Some ?nm1, ?tr1)"
    using modification_scope_latch [of ?nm2 example_platform permissive_environment ?tr1 True]
    by simp
  have f1: "\<not> calls_succeed ?fail [] ?tr1" by simp
  have f2: "NativeModuleModificationScope_enter example_platform ?fail (Some ?nm0, [])
      = Inl CHECK_failed"
  proof -
    have "NativeModuleModificationScope_enter example_platform ?fail (Some ?nm0, [])
      = (if calls_succeed ?fail [] (SetExecutable_calls example_platform ?nm0 False)
         then Inr (Some (?nm0\<lparr>modification_scope_depth := 1, is_executable := False\<rparr>),
                   [] @ SetExecutable_calls example_platform ?nm0 False)
         else Inl CHECK_failed)"
      using modification_scope_latch [of ?nm0 example_platform ?fail "[]" False] d0
      by blast
    then show ?thesis unfolding c0 using f1
      by (simp del: NativeModuleModificationScope_enter.simps)
  qed
  have pw: "is_executable ?nmw \<noteq> False \<and> FLAG_wasm_write_protect_code_memory ?win"
    and qw: "V8_OS_WIN ?win \<and> can_request_more_memory ?nmw"
    by (simp_all add: example_platform_def empty_module_def)
  have w: "SetExecutable_calls ?win ?nmw False = [SetPermissions_call 4096 65536 kReadWrite]"
  proof -
    have "SetExecutable_calls ?win ?nmw False =
        map (\<lambda>v. SetPermissions_call (address v) (vm_size v)
                   (if False then kReadExecute else kReadWrite)) (owned_code_space ?nmw)"
      using modification_scope_latch [of ?nmw ?win permissive_environment "[]" False] pw qw
      by presburger
    then show ?thesis by simp
  qed
  have po: "is_executable ?nm0 = False \<or> \<not> FLAG_wasm_write_protect_code_memory ?off"
    by (simp add: example_platform_def)
  have o: "SetExecutable_calls ?off ?nm0 False = []"
    using modification_scope_latch [of ?nm0 ?off permissive_environment "[]" False] po
    by blast
  show ?thesis
    by (intro conjI d0 c0 ok0 e n s i1 i2 x f1 f2 w o)
qed

text \<open>
  The claim as stated fails when \<^verbatim>\<open>FLAG_wasm_write_protect_code_memory\<close> is off. The
  code of the module below was committed read-write-execute, as \<^verbatim>\<open>Commit\<close> does
  with the flag off. Entering a scope at depth 0 succeeds and marks the module not
  executable, but issues no permission change: no call sets the memory read-write.
\<close>

theorem modification_scope_latch_counterexample:
  "modification_scope_depth
       (empty_module\<lparr>allocated_code_space := [\<lparr>start = 4096, end_addr = 4160\<rparr>],
          is_executable := True\<rparr>) = 0
   \<and> NativeModuleModificationScope_enter
       (example_platform\<lparr>FLAG_wasm_write_protect_code_memory := False\<rparr>) permissive_environment
       (Some (empty_module\<lparr>allocated_code_space := [\<lparr>start = 4096, end_addr = 4160\<rparr>],
                is_executable := True\<rparr>),
        [SetPermissions_call 4096 4096 kReadWriteExecute])
     = Inr (Some (empty_module\<lparr>allocated_code_space := [\<lparr>start = 4096, end_addr = 4160\<rparr>],
                is_executable := False, modification_scope_depth := 1\<rparr>),
            [SetPermissions_call 4096 4096 kReadWriteExecute])
   \<and> filter (sets_permission kReadWrite) [SetPermissions_call 4096 4096 kReadWriteExecute] = []"
  by (simp add: example_platform_def permissive_environment_def empty_module_def)

subsection \<open>NativeModule::DisableTrapHandler\<close>

lemma memset_null_length:
  "length (memset_null table n) = length table"
  by (simp add: memset_null_def)

lemma memset_null_nth:
  "i < n \<Longrightarrow> i < length table \<Longrightarrow> memset_null table n ! i = None"
  by (simp add: memset_null_def nth_append)

lemma memset_null_rest:
  "n \<le> i \<Longrightarrow> i < length table \<Longrightarrow> memset_null table n ! i = table ! i"
  by (simp add: memset_null_def nth_append min_def)

text \<open>
  C9. \<open>DisableTrapHandler\<close> sets \<open>use_trap_handler\<close> to false and every entry of the
  code table to null, and leaves the owned code (hence every \<open>Lookup\<close>), the jump table
  (hence every call target), both allocation pools, the reservations and
  \<open>committed_code_space\<close> as they are. The hypothesis is that the table has the
  \<open>num_functions - num_imported_functions\<close> entries that the \<^verbatim>\<open>memset\<close> writes.
\<close>

theorem DisableTrapHandler_frame:
  assumes "unat (num_functions nm - num_imported_functions nm) \<le> length (code_table nm)"
  shows "\<not> use_trap_handler (DisableTrapHandler nm)
    \<and> length (code_table_vector (DisableTrapHandler nm)) = length (code_table_vector nm)
    \<and> list_all (\<lambda>entry. entry = None) (code_table_vector (DisableTrapHandler nm))
    \<and> owned_code (DisableTrapHandler nm) = owned_code nm
    \<and> (\<forall>pc. Lookup (DisableTrapHandler nm) pc = Lookup nm pc)
    \<and> jump_table (DisableTrapHandler nm) = jump_table nm
    \<and> (\<forall>cfg f. GetCallTargetForFunction cfg (DisableTrapHandler nm) f
                 = GetCallTargetForFunction cfg nm f)
    \<and> free_code_space (DisableTrapHandler nm) = free_code_space nm
    \<and> allocated_code_space (DisableTrapHandler nm) = allocated_code_space nm
    \<and> owned_code_space (DisableTrapHandler nm) = owned_code_space nm
    \<and> committed_code_space (DisableTrapHandler nm) = committed_code_space nm
    \<and> DisableTrapHandler nm
        = nm\<lparr>use_trap_handler := False,
             code_table := replicate (unat (num_functions nm - num_imported_functions nm)) None
                           @ drop (unat (num_functions nm - num_imported_functions nm)) (code_table nm)\<rparr>"
  using assms
  by (simp add: DisableTrapHandler_def Let_def code_table_vector_def memset_null_def Lookup_def
      GetCallTargetForFunction_def min_def list_all_iff split: option.split)


theorem DisableTrapHandler_frame_witness:
  "unat (num_functions (empty_module\<lparr>num_functions := 3, num_imported_functions := 1,
        code_table := [Some (code_object 8192 64 kFunction), None],
        owned_code := [code_object 4096 32 kJumpTable, code_object 8192 64 kFunction],
        jump_table := Some (code_object 4096 32 kJumpTable), use_trap_handler := True\<rparr>)
      - num_imported_functions (empty_module\<lparr>num_functions := 3, num_imported_functions := 1,
        code_table := [Some (code_object 8192 64 kFunction), None],
        owned_code := [code_object 4096 32 kJumpTable, code_object 8192 64 kFunction],
        jump_table := Some (code_object 4096 32 kJumpTable), use_trap_handler := True\<rparr>))
    \<le> length (code_table (empty_module\<lparr>num_functions := 3, num_imported_functions := 1,
        code_table := [Some (code_object 8192 64 kFunction), None],
        owned_code := [code_object 4096 32 kJumpTable, code_object 8192 64 kFunction],
        jump_table := Some (code_object 4096 32 kJumpTable), use_trap_handler := True\<rparr>))
   \<and> DisableTrapHandler (empty_module\<lparr>num_functions := 3, num_imported_functions := 1,
        code_table := [Some (code_object 8192 64 kFunction), None],
        owned_code := [code_object 4096 32 kJumpTable, code_object 8192 64 kFunction],
        jump_table := Some (code_object 4096 32 kJumpTable), use_trap_handler := True\<rparr>)
     = empty_module\<lparr>num_functions := 3, num_imported_functions := 1,
        code_table := [None, None],
        owned_code := [code_object 4096 32 kJumpTable, code_object 8192 64 kFunction],
        jump_table := Some (code_object 4096 32 kJumpTable), use_trap_handler := False\<rparr>"
proof -
  let ?nm = "empty_module\<lparr>num_functions := 3, num_imported_functions := 1,
        code_table := [Some (code_object 8192 64 kFunction), None],
        owned_code := [code_object 4096 32 kJumpTable, code_object 8192 64 kFunction],
        jump_table := Some (code_object 4096 32 kJumpTable), use_trap_handler := True\<rparr>"
  have h: "unat (num_functions ?nm - num_imported_functions ?nm) \<le> length (code_table ?nm)"
    by simp
  have "unat (2 :: uint32_t) = Suc (Suc 0)" by simp
  then have two: "replicate (unat (2 :: uint32_t)) (None :: WasmCode option) = [None, None]"
    by (simp only: replicate.simps)
  show ?thesis
    using h DisableTrapHandler_frame [OF h] two by (simp add: empty_module_def)
qed

subsection \<open>WasmCodeManager::Commit\<close>

text \<open>The reservation loop gives the same result for every number of failed exchanges.\<close>

lemma cas_loop_result:
  "cas_loop n sz old_value = (if old_value < sz then (False, old_value) else (True, old_value - sz))"
  by (induction n) simp_all

lemma Commit_exhausted:
  "remaining_uncommitted_code_space mgr < sz \<Longrightarrow> Commit cfg env a sz (mgr, tr) = (False, mgr, tr)"
  by (simp add: cas_loop_result)

lemma Commit_reserved:
  assumes "\<not> remaining_uncommitted_code_space mgr < sz"
  shows "Commit cfg env a sz (mgr, tr) =
    (let permission = (if FLAG_wasm_write_protect_code_memory cfg then kReadWrite
                       else kReadWriteExecute) in
     if SetPermissions_ok env tr a sz permission
     then (True, mgr\<lparr>remaining_uncommitted_code_space := remaining_uncommitted_code_space mgr - sz\<rparr>,
           tr @ [SetPermissions_call a sz permission])
     else (False, mgr, tr @ [SetPermissions_call a sz permission]))"
  using assms by (simp add: cas_loop_result SetPermissions_def Let_def)

lemma Commit_cases:
  "Commit cfg env a sz (mgr, tr) = (ok, mgr', tr') \<Longrightarrow>
   (ok \<longrightarrow> sz \<le> remaining_uncommitted_code_space mgr
          \<and> mgr' = mgr\<lparr>remaining_uncommitted_code_space := remaining_uncommitted_code_space mgr - sz\<rparr>)
   \<and> (\<not> ok \<longrightarrow> mgr' = mgr)"
  by (cases "remaining_uncommitted_code_space mgr < sz")
    (auto simp: Commit_exhausted Commit_reserved Let_def not_less simp del: Commit.simps
      split: if_splits)

text \<open>
  C2. \<open>Commit\<close> returns false and leaves the manager and the trace as they are when
  the remaining budget is smaller than the size. Otherwise it debits the size and
  changes the permissions; when that fails it credits the size back and returns false,
  so the manager is unchanged after every failing call; when it succeeds the budget has
  gone down by exactly the size. A request of exactly the remaining budget succeeds when
  the OS call does, and leaves the budget at zero. No alignment of the address or the
  size is needed.
\<close>

theorem Commit_error_semantics:
  "(remaining_uncommitted_code_space mgr < sz \<longrightarrow>
      Commit cfg env start_addr sz (mgr, tr) = (False, mgr, tr))
   \<and> (sz \<le> remaining_uncommitted_code_space mgr \<longrightarrow>
      (let permission = (if FLAG_wasm_write_protect_code_memory cfg then kReadWrite
                         else kReadWriteExecute) in
       Commit cfg env start_addr sz (mgr, tr) =
         (if SetPermissions_ok env tr start_addr sz permission
          then (True,
                mgr\<lparr>remaining_uncommitted_code_space := remaining_uncommitted_code_space mgr - sz\<rparr>,
                tr @ [SetPermissions_call start_addr sz permission])
          else (False,
                mgr\<lparr>remaining_uncommitted_code_space :=
                       remaining_uncommitted_code_space mgr - sz + sz\<rparr>,
                tr @ [SetPermissions_call start_addr sz permission]))))
   \<and> (\<forall>mgr' tr'. Commit cfg env start_addr sz (mgr, tr) = (False, mgr', tr') \<longrightarrow> mgr' = mgr)
   \<and> (\<forall>mgr' tr'. Commit cfg env start_addr sz (mgr, tr) = (True, mgr', tr') \<longrightarrow>
         sz \<le> remaining_uncommitted_code_space mgr
         \<and> unat (remaining_uncommitted_code_space mgr')
             = unat (remaining_uncommitted_code_space mgr) - unat sz)
   \<and> (sz = remaining_uncommitted_code_space mgr
        \<and> SetPermissions_ok env tr start_addr sz
             (if FLAG_wasm_write_protect_code_memory cfg then kReadWrite else kReadWriteExecute)
       \<longrightarrow> fst (Commit cfg env start_addr sz (mgr, tr))
           \<and> remaining_uncommitted_code_space (fst (snd (Commit cfg env start_addr sz (mgr, tr)))) = 0)"
proof (intro conjI allI impI)
  assume "remaining_uncommitted_code_space mgr < sz"
  then show "Commit cfg env start_addr sz (mgr, tr) = (False, mgr, tr)"
    by (rule Commit_exhausted)
next
  assume "sz \<le> remaining_uncommitted_code_space mgr"
  then have "\<not> remaining_uncommitted_code_space mgr < sz" by (simp add: not_less)
  from Commit_reserved [OF this, of cfg env start_addr tr]
  show "let permission = (if FLAG_wasm_write_protect_code_memory cfg then kReadWrite
                         else kReadWriteExecute) in
       Commit cfg env start_addr sz (mgr, tr) =
         (if SetPermissions_ok env tr start_addr sz permission
          then (True,
                mgr\<lparr>remaining_uncommitted_code_space := remaining_uncommitted_code_space mgr - sz\<rparr>,
                tr @ [SetPermissions_call start_addr sz permission])
          else (False,
                mgr\<lparr>remaining_uncommitted_code_space :=
                       remaining_uncommitted_code_space mgr - sz + sz\<rparr>,
                tr @ [SetPermissions_call start_addr sz permission]))"
    by (simp add: Let_def del: Commit.simps)
next
  fix mgr' tr'
  assume "Commit cfg env start_addr sz (mgr, tr) = (False, mgr', tr')"
  then show "mgr' = mgr" using Commit_cases by blast
next
  fix mgr' tr'
  assume a: "Commit cfg env start_addr sz (mgr, tr) = (True, mgr', tr')"
  then show "sz \<le> remaining_uncommitted_code_space mgr" using Commit_cases by blast
next
  fix mgr' tr'
  assume a: "Commit cfg env start_addr sz (mgr, tr) = (True, mgr', tr')"
  then have "sz \<le> remaining_uncommitted_code_space mgr"
    and "mgr' = mgr\<lparr>remaining_uncommitted_code_space := remaining_uncommitted_code_space mgr - sz\<rparr>"
    using Commit_cases by blast+
  then show "unat (remaining_uncommitted_code_space mgr')
             = unat (remaining_uncommitted_code_space mgr) - unat sz"
    by (simp add: unat_sub)
next
  assume a: "sz = remaining_uncommitted_code_space mgr
        \<and> SetPermissions_ok env tr start_addr sz
             (if FLAG_wasm_write_protect_code_memory cfg then kReadWrite else kReadWriteExecute)"
  then have "\<not> remaining_uncommitted_code_space mgr < sz" by simp
  from Commit_reserved [OF this, of cfg env start_addr tr] a
  show "fst (Commit cfg env start_addr sz (mgr, tr))"
    by (auto simp add: Let_def simp del: Commit.simps)
next
  assume a: "sz = remaining_uncommitted_code_space mgr
        \<and> SetPermissions_ok env tr start_addr sz
             (if FLAG_wasm_write_protect_code_memory cfg then kReadWrite else kReadWriteExecute)"
  then have "\<not> remaining_uncommitted_code_space mgr < sz" by simp
  from Commit_reserved [OF this, of cfg env start_addr tr] a
  show "remaining_uncommitted_code_space (fst (snd (Commit cfg env start_addr sz (mgr, tr)))) = 0"
    by (auto simp add: Let_def simp del: Commit.simps)
qed


theorem Commit_error_semantics_witness:
  "(4096 :: size_t) < 8192
   \<and> Commit example_platform permissive_environment 65536 8192
        (WasmCodeManager_ctor 4096, []) = (False, WasmCodeManager_ctor 4096, [])
   \<and> (8192 :: size_t) = remaining_uncommitted_code_space (WasmCodeManager_ctor 8192)
   \<and> SetPermissions_ok permissive_environment [] 65536 8192 kReadWrite
   \<and> Commit example_platform permissive_environment 65536 8192
        (WasmCodeManager_ctor 8192, [])
      = (True, WasmCodeManager_ctor 0, [SetPermissions_call 65536 8192 kReadWrite])
   \<and> \<not> SetPermissions_ok (permissive_environment\<lparr>SetPermissions_ok :=
            \<lambda>tr addr sz permission. False\<rparr>) [] 65536 4096 kReadWrite
   \<and> Commit example_platform
        (permissive_environment\<lparr>SetPermissions_ok := \<lambda>tr addr sz permission. False\<rparr>)
        65536 4096 (WasmCodeManager_ctor 8192, [])
      = (False, WasmCodeManager_ctor 8192, [SetPermissions_call 65536 4096 kReadWrite])"
proof -
  let ?fail = "permissive_environment\<lparr>SetPermissions_ok := \<lambda>tr addr sz permission. False\<rparr>"
  have r: "remaining_uncommitted_code_space (WasmCodeManager_ctor c) = c" for c
    by (simp add: WasmCodeManager_ctor_def)
  have u: "(WasmCodeManager_ctor c)\<lparr>remaining_uncommitted_code_space := d\<rparr> = WasmCodeManager_ctor d"
    for c d by (simp add: WasmCodeManager_ctor_def)
  have f: "FLAG_wasm_write_protect_code_memory example_platform"
    by (simp add: example_platform_def)
  have ok: "SetPermissions_ok permissive_environment [] 65536 8192 kReadWrite"
    by (simp add: permissive_environment_def)
  have no: "\<not> SetPermissions_ok ?fail [] 65536 4096 kReadWrite" by simp
  have "Commit example_platform permissive_environment 65536 8192 (WasmCodeManager_ctor 4096, [])
      = (False, WasmCodeManager_ctor 4096, [])"
    using Commit_error_semantics [of "WasmCodeManager_ctor 4096" 8192 example_platform
        permissive_environment 65536 "[]"]
    by (simp add: r del: Commit.simps)
  moreover have "Commit example_platform permissive_environment 65536 8192
        (WasmCodeManager_ctor 8192, [])
      = (True, WasmCodeManager_ctor 0, [SetPermissions_call 65536 8192 kReadWrite])"
    using Commit_error_semantics [of "WasmCodeManager_ctor 8192" 8192 example_platform
        permissive_environment 65536 "[]"] ok f
    by (simp add: r u Let_def del: Commit.simps)
  moreover have "Commit example_platform ?fail 65536 4096 (WasmCodeManager_ctor 8192, [])
      = (False, WasmCodeManager_ctor 8192, [SetPermissions_call 65536 4096 kReadWrite])"
    using Commit_error_semantics [of "WasmCodeManager_ctor 8192" 4096 example_platform
        ?fail 65536 "[]"] no f
    by (simp add: r u Let_def del: Commit.simps)
  ultimately show ?thesis using ok no by (simp add: r del: Commit.simps)
qed

subsection \<open>Budget conservation\<close>

text \<open>
  The operations are unfolded by hand from here on. Each operation that commits or frees
  preserves the sum of the module's committed bytes and the remaining budget, as long as
  that sum is below \<open>2^64\<close>, so that no addition wraps.
\<close>

declare Commit.simps [simp del] commit_allocated.simps [simp del] AllocateForCode.simps [simp del]
  AddOwnedCode.simps [simp del] FreeNativeModule.simps [simp del] SetExecutable.simps [simp del]

lemma Commit_budget:
  assumes "Commit cfg env a sz (mgr, tr) = (ok, mgr', tr')"
  shows "if ok then unat sz \<le> remaining mgr \<and> remaining mgr' = remaining mgr - unat sz
         else mgr' = mgr"
proof (cases ok)
  case True
  then have "sz \<le> remaining_uncommitted_code_space mgr"
    and "mgr' = mgr\<lparr>remaining_uncommitted_code_space := remaining_uncommitted_code_space mgr - sz\<rparr>"
    using Commit_cases [OF assms] by simp_all
  then show ?thesis using True by (simp add: unat_sub word_le_nat_alt)
next
  case False
  then show ?thesis using Commit_cases [OF assms] by simp
qed

lemma unat_credit:
  fixes committed sz :: size_t
  assumes "unat committed + r < 2 ^ 64" and "unat sz \<le> r"
  shows "unat (committed + sz) = unat committed + unat sz"
proof -
  have "unat committed + unat sz < 2 ^ 64" using assms by linarith
  then show ?thesis by (simp add: unat_add_lem [THEN iffD1])
qed

lemma commit_reservations_budget:
  assumes "commit_reservations cfg env vs cs ce (committed, mgr, tr) = (ok, committed', mgr', tr')"
    and "unat committed + remaining mgr < 2 ^ 64"
  shows "unat committed' + remaining mgr' = unat committed + remaining mgr"
  using assms
proof (induction vs arbitrary: ce committed mgr tr)
  case Nil
  then show ?case by simp
next
  case (Cons it rest)
  show ?case
  proof (cases "\<not> cs < ce")
    case True
    then show ?thesis using Cons.prems(1) by simp
  next
    case lt: False
    show ?thesis
    proof (cases "ce > vm_end it \<or> address it \<ge> ce")
      case True
      then have "commit_reservations cfg env rest cs ce (committed, mgr, tr) = (ok, committed', mgr', tr')"
        using Cons.prems(1) lt by simp
      then show ?thesis using Cons.prems(2) by (rule Cons.IH)
    next
      case False
      let ?start = "max cs (address it)"
      let ?size = "ce - ?start"
      obtain ok1 mgr1 tr1 where c: "Commit cfg env ?start ?size (mgr, tr) = (ok1, mgr1, tr1)"
        by (cases "Commit cfg env ?start ?size (mgr, tr)")
      note b = Commit_budget [OF c]
      show ?thesis
      proof (cases ok1)
        case F: False
        then have "committed' = committed" "mgr' = mgr1"
          using Cons.prems(1) lt False c by (simp_all add: Let_def)
        then show ?thesis using b F by simp
      next
        case T: True
        then have r: "commit_reservations cfg env rest cs ?start (committed + ?size, mgr1, tr1)
            = (ok, committed', mgr', tr')"
          using Cons.prems(1) lt False c by (simp add: Let_def)
        have s: "unat ?size \<le> remaining mgr" "remaining mgr1 = remaining mgr - unat ?size"
          using b T by simp_all
        have u: "unat (committed + ?size) = unat committed + unat ?size"
          using Cons.prems(2) s(1) by (rule unat_credit)
        have "unat (committed + ?size) + remaining mgr1 = unat committed + remaining mgr"
          using u s by simp
        moreover from this have "unat (committed + ?size) + remaining mgr1 < 2 ^ 64"
          using Cons.prems(2) by simp
        ultimately show ?thesis using Cons.IH [OF r] by simp
      qed
    qed
  qed
qed

lemma commit_allocated_budget:
  assumes "commit_allocated cfg env mem (nm, mgr, tr) = (a, nm', mgr', tr')"
    and "unat (committed_code_space nm) + remaining mgr < 2 ^ 64"
  shows "unat (committed_code_space nm') + remaining mgr'
       = unat (committed_code_space nm) + remaining mgr"
proof -
  let ?cs = "RoundUp (start mem) (AllocatePageSize cfg)"
  let ?ce = "RoundUp (end_addr mem) (AllocatePageSize cfg)"
  show ?thesis
  proof (cases "?cs < ?ce")
    case False
    then show ?thesis using assms(1) by (auto simp: commit_allocated.simps Let_def)
  next
    case lt: True
    show ?thesis
    proof (cases "V8_OS_WIN cfg")
      case True
      obtain ok c1 mgr1 tr1 where r:
        "commit_reservations cfg env (rev (owned_code_space nm)) ?cs ?ce
           (committed_code_space nm, mgr, tr) = (ok, c1, mgr1, tr1)"
        by (cases "commit_reservations cfg env (rev (owned_code_space nm)) ?cs ?ce
           (committed_code_space nm, mgr, tr)")
      have "committed_code_space nm' = c1 \<and> mgr' = mgr1"
        using assms(1) lt True r by (auto simp: commit_allocated.simps Let_def split: if_splits)
      then show ?thesis using commit_reservations_budget [OF r assms(2)] by simp
    next
      case False
      let ?size = "?ce - ?cs"
      obtain ok mgr1 tr1 where c: "Commit cfg env ?cs ?size (mgr, tr) = (ok, mgr1, tr1)"
        by (cases "Commit cfg env ?cs ?size (mgr, tr)")
      note b = Commit_budget [OF c]
      show ?thesis
      proof (cases ok)
        case F: False
        then have "nm' = nm \<and> mgr' = mgr1"
          using assms(1) lt False c by (auto simp: commit_allocated.simps Let_def)
        then show ?thesis using b F by simp
      next
        case T: True
        then have "committed_code_space nm' = committed_code_space nm + ?size \<and> mgr' = mgr1"
          using assms(1) lt False c by (auto simp: commit_allocated.simps Let_def)
        moreover have le: "unat ?size \<le> remaining mgr" using b T by simp
        have "unat (committed_code_space nm + ?size)
            = unat (committed_code_space nm) + unat ?size"
          using assms(2) le by (rule unat_credit)
        ultimately show ?thesis using b T by simp
      qed
    qed
  qed
qed

lemma AssignRanges_remaining [simp]:
  "remaining_uncommitted_code_space (AssignRanges s e m mgr) = remaining_uncommitted_code_space mgr"
  by (simp add: AssignRanges_def split: option.split)

lemma AllocateForCode_budget:
  assumes "AllocateForCode cfg env this sz0 (nm, mgr, tr) = (a, nm', mgr', tr')"
    and "unat (committed_code_space nm) + remaining mgr < 2 ^ 64"
  shows "unat (committed_code_space nm') + remaining mgr'
       = unat (committed_code_space nm) + remaining mgr"
proof -
  let ?sz = "RoundUp sz0 (kCodeAlignment cfg)"
  obtain mem free1 where al: "Allocate ?sz (free_code_space nm) = (mem, free1)"
    by (cases "Allocate ?sz (free_code_space nm)")
  let ?nm1 = "nm\<lparr>free_code_space := free1\<rparr>"
  show ?thesis
  proof (cases "is_empty_range mem")
    case False
    then have "commit_allocated cfg env mem (?nm1, mgr, tr) = (a, nm', mgr', tr')"
      using assms(1) al by (simp add: AllocateForCode.simps Let_def)
    from commit_allocated_budget [OF this] assms(2) show ?thesis by simp
  next
    case empty: True
    show ?thesis
    proof (cases "can_request_more_memory nm")
      case False
      then have "nm' = ?nm1 \<and> mgr' = mgr"
        using assms(1) al empty by (simp add: AllocateForCode.simps Let_def)
      then show ?thesis by simp
    next
      case True
      let ?hint = "if owned_code_space ?nm1 = [] then kNullAddress
                   else vm_end (last (owned_code_space ?nm1))"
      obtain new_mem tr1 where ta: "TryAllocate cfg env ?sz ?hint tr = (new_mem, tr1)"
        by (cases "TryAllocate cfg env ?sz ?hint tr")
      let ?nm2 = "?nm1\<lparr>owned_code_space := owned_code_space ?nm1 @ [new_mem]\<rparr>"
      show ?thesis
      proof (cases "IsReserved new_mem")
        case False
        then have "nm' = ?nm2 \<and> mgr' = mgr"
          using assms(1) al empty True ta by (simp add: AllocateForCode.simps Let_def)
        then show ?thesis by simp
      next
        case res: True
        let ?mgr1 = "AssignRanges (address new_mem) (vm_end new_mem) this mgr"
        obtain mem2 free2 where al2:
          "Allocate ?sz (Merge \<lparr>start = address new_mem, end_addr = vm_end new_mem\<rparr>
                          (free_code_space ?nm2)) = (mem2, free2)"
          by (cases "Allocate ?sz (Merge \<lparr>start = address new_mem, end_addr = vm_end new_mem\<rparr>
                          (free_code_space ?nm2))")
        let ?nm3 = "?nm2\<lparr>free_code_space := free2\<rparr>"
        show ?thesis
        proof (cases "is_empty_range mem2")
          case True
          then have "nm' = ?nm3 \<and> mgr' = ?mgr1"
            using assms(1) al empty \<open>can_request_more_memory nm\<close> ta res al2
            by (simp add: AllocateForCode.simps Let_def)
          then show ?thesis by simp
        next
          case False
          then have "commit_allocated cfg env mem2 (?nm3, ?mgr1, tr1) = (a, nm', mgr', tr')"
            using assms(1) al empty \<open>can_request_more_memory nm\<close> ta res al2
            by (simp add: AllocateForCode.simps Let_def)
          from commit_allocated_budget [OF this] assms(2) show ?thesis by simp
        qed
      qed
    qed
  qed
qed

lemma AddOwnedCode_budget:
  assumes "AddOwnedCode cfg env this args (nm, mgr, tr) = Inr (code, nm', mgr', tr')"
    and "unat (committed_code_space nm) + remaining mgr < 2 ^ 64"
  shows "unat (committed_code_space nm') + remaining mgr'
       = unat (committed_code_space nm) + remaining mgr"
proof -
  obtain a nm1 mgr1 tr1 where
    al: "AllocateForCode cfg env this (vec_size (instructions args)) (nm, mgr, tr) = (a, nm1, mgr1, tr1)"
    by (cases "AllocateForCode cfg env this (vec_size (instructions args)) (nm, mgr, tr)")
  have "committed_code_space nm' = committed_code_space nm1 \<and> mgr' = mgr1"
    using assms(1) al by (auto simp: AddOwnedCode.simps Let_def split: if_splits)
  then show ?thesis using AllocateForCode_budget [OF al assms(2)] by simp
qed

lemma ctor_no_functions:
  assumes "\<not> nf - ni > 0"
  shows "NativeModule_ctor cfg env this nf ni crm code_space uth (mgr, tr) =
     Inr (\<lparr>owned_code = [], num_functions = nf,
                 num_imported_functions = ni, code_table = [], jump_table = None,
                 free_code_space = [\<lparr>start = address code_space, end_addr = vm_end code_space\<rparr>],
                 allocated_code_space = [], owned_code_space = [code_space],
                 committed_code_space = 0, modification_scope_depth = 0,
                 can_request_more_memory = crm,
                 use_trap_handler = uth, is_executable = False,
                 lazy_compile_frozen = False\<rparr>, mgr, tr)"
  unfolding NativeModule_ctor_def Let_def
  by (subst if_not_P [OF assms]) simp

lemma NativeModule_ctor_budget:
  assumes "NativeModule_ctor cfg env this nf ni crm code_space uth (mgr, tr) = Inr (nm', mgr', tr')"
  shows "unat (committed_code_space nm') + remaining mgr' = remaining mgr"
proof (cases "nf - ni > 0")
  case False
  then show ?thesis using assms unfolding ctor_no_functions [OF False] by auto
next
  case True
  let ?nm0 = "\<lparr>owned_code = [], num_functions = nf,
                 num_imported_functions = ni, code_table = replicate (unat (nf - ni)) None,
                 jump_table = None,
                 free_code_space = [\<lparr>start = address code_space, end_addr = vm_end code_space\<rparr>],
                 allocated_code_space = [], owned_code_space = [code_space],
                 committed_code_space = 0, modification_scope_depth = 0,
                 can_request_more_memory = crm,
                 use_trap_handler = uth, is_executable = False,
                 lazy_compile_frozen = False\<rparr>"
  have nm0: "unat (committed_code_space ?nm0) + remaining mgr < 2 ^ 64"
  proof -
    have "remaining mgr < 2 ^ LENGTH(64)" by (rule unsigned_less)
    then show ?thesis by simp
  qed
  have ctor: "NativeModule_ctor cfg env this nf ni crm code_space uth (mgr, tr) =
      (case CreateEmptyJumpTable cfg env this (nf - ni) (?nm0, mgr, tr) of
         Inl f \<Rightarrow> Inl f
       | Inr (code, nm, mgr1, tr1) \<Rightarrow> Inr (nm\<lparr>jump_table := Some code\<rparr>, mgr1, tr1))"
    using True by (simp add: NativeModule_ctor_def Let_def)
  show ?thesis
  proof (cases "CreateEmptyJumpTable cfg env this (nf - ni) (?nm0, mgr, tr)")
    case (Inl f)
    then show ?thesis using assms ctor by simp
  next
    case (Inr r)
    obtain code nm1 mgr1 tr1 where r: "r = (code, nm1, mgr1, tr1)" by (cases r)
    have j: "AddOwnedCode cfg env this
        \<lparr>instructions = \<lparr>vec_start = kNullAddress,
                          vec_size = ucast ((nf - ni) * kJumpTableSlotSize cfg)\<rparr>,
         reloc_size = 0, source_position_size = 0, index = None, kind = kJumpTable,
         constant_pool_offset = 0, stack_slots = 0, safepoint_table_offset = 0,
         handler_table_offset = 0, trap_handler_index = - 1, tier = kOther\<rparr> (?nm0, mgr, tr)
        = Inr (code, nm1, mgr1, tr1)"
      using Inr r by (simp add: CreateEmptyJumpTable_def Let_def)
    have "nm' = nm1\<lparr>jump_table := Some code\<rparr>" "mgr' = mgr1"
      using assms ctor Inr r by simp_all
    then show ?thesis using AddOwnedCode_budget [OF j nm0] by simp
  qed
qed

lemma NewNativeModule_budget:
  assumes "NewNativeModule cfg env this est nf ni crm uth (mgr, tr) = Inr (nm', mgr', tr')"
  shows "unat (committed_code_space nm') + remaining mgr' = remaining mgr"
proof -
  let ?vs = "if kRequiresCodeRange cfg then kMaxWasmCodeMemory cfg else est"
  obtain mem tr1 where ta: "TryAllocate cfg env ?vs kNullAddress tr = (mem, tr1)"
    by (cases "TryAllocate cfg env ?vs kNullAddress tr")
  show ?thesis
  proof (cases "IsReserved mem")
    case False
    then show ?thesis using assms ta by (simp add: NewNativeModule_def Let_def)
  next
    case True
    then have new: "NewNativeModule cfg env this est nf ni crm uth (mgr, tr) =
      (case NativeModule_ctor cfg env this nf ni crm mem uth (mgr, tr1) of
         Inl f \<Rightarrow> Inl f
       | Inr (nm, mgr0, tr2) \<Rightarrow>
           let mgr1 = AssignRanges (address mem) (vm_end mem) this mgr0 in
           Inr (nm, mgr1\<lparr>active := active mgr1 + 1\<rparr>, tr2))"
      using ta by (simp add: NewNativeModule_def)
    show ?thesis
    proof (cases "NativeModule_ctor cfg env this nf ni crm mem uth (mgr, tr1)")
      case (Inl f)
      then show ?thesis using assms new by simp
    next
      case (Inr r)
      obtain nm1 mgr1 tr2 where r: "r = (nm1, mgr1, tr2)" by (cases r)
      have c: "NativeModule_ctor cfg env this nf ni crm mem uth (mgr, tr1) = Inr (nm1, mgr1, tr2)"
        using Inr r by simp
      have "nm' = nm1"
        "mgr' = (AssignRanges (address mem) (vm_end mem) this mgr1)
                  \<lparr>active := active (AssignRanges (address mem) (vm_end mem) this mgr1) + 1\<rparr>"
        using assms new Inr r by (simp_all add: Let_def)
      then show ?thesis using NativeModule_ctor_budget [OF c] by simp
    qed
  qed
qed

lemma FreeNativeModule_budget:
  assumes "FreeNativeModule nm (mgr, tr) = (nm', mgr', tr')"
    and "unat (committed_code_space nm) + remaining mgr < 2 ^ 64"
  shows "remaining mgr' = remaining mgr + unat (committed_code_space nm)"
proof -
  obtain m tr1 where
    f: "free_reservations (owned_code_space nm) (lookup_map (mgr\<lparr>active := active mgr - 1\<rparr>), tr)
        = (m, tr1)"
    by (cases "free_reservations (owned_code_space nm)
                 (lookup_map (mgr\<lparr>active := active mgr - 1\<rparr>), tr)")
  have "mgr' = mgr\<lparr>active := active mgr - 1, lookup_map := m,
                remaining_uncommitted_code_space :=
                  remaining_uncommitted_code_space mgr + committed_code_space nm\<rparr>"
    using assms(1) f by (simp add: FreeNativeModule.simps Let_def)
  then have "remaining_uncommitted_code_space mgr'
      = remaining_uncommitted_code_space mgr + committed_code_space nm"
    by simp
  moreover have "unat (remaining_uncommitted_code_space mgr + committed_code_space nm)
      = remaining mgr + unat (committed_code_space nm)"
  proof (rule unat_add_lem [THEN iffD1])
    show "remaining mgr + unat (committed_code_space nm) < 2 ^ LENGTH(64)"
      using assms(2) by simp
  qed
  ultimately show ?thesis by simp
qed

lemma SetExecutable_committed:
  assumes "SetExecutable cfg env x (nm, tr) = (ok, nm', tr')"
  shows "committed_code_space nm' = committed_code_space nm"
proof (cases ok)
  case True
  then show ?thesis using SetExecutable_success [of cfg env x nm tr nm' tr'] assms by simp
next
  case False
  then show ?thesis using SetExecutable_failure [of cfg env x nm tr nm' tr'] assms by simp
qed

lemma DisableTrapHandler_committed [simp]:
  "committed_code_space (DisableTrapHandler nm) = committed_code_space nm"
  by (simp add: DisableTrapHandler_def Let_def)

lemma scope_enter_committed:
  assumes "NativeModuleModificationScope_enter cfg env (Some nm, tr) = Inr (nm', tr')"
  shows "committed_of nm' = unat (committed_code_space nm)"
proof (cases "modification_scope_depth nm = 0")
  case True
  then show ?thesis using enter_outer [OF True assms] by (simp add: committed_of_def)
next
  case False
  then show ?thesis using enter_inner [OF False, of cfg env tr] assms
    by (simp add: committed_of_def del: NativeModuleModificationScope_enter.simps)
qed

lemma scope_exit_committed:
  assumes "NativeModuleModificationScope_exit cfg env (Some nm, tr) = Inr (nm', tr')"
  shows "committed_of nm' = unat (committed_code_space nm)"
proof (cases "modification_scope_depth nm = 1")
  case True
  then show ?thesis using exit_outer [OF True assms] by (simp add: committed_of_def)
next
  case False
  then show ?thesis using exit_inner [OF False, of cfg env tr] assms
    by (simp add: committed_of_def del: NativeModuleModificationScope_exit.simps)
qed

text \<open>Every event preserves the budget of the system, and so does every run.\<close>

lemma total_committed_update:
  assumes "i < length (modules sys)"
  shows "total_committed (sys\<lparr>modules := (modules sys)[i := m]\<rparr>) + committed_of (modules sys ! i)
       = total_committed sys + committed_of m"
proof -
  have le: "committed_of (modules sys ! i) \<le> sum_list (map committed_of (modules sys))"
    using assms by (simp add: member_le_sum_list)
  have "sum_list (map committed_of ((modules sys)[i := m]))
      = sum_list (map committed_of (modules sys)) + committed_of m - committed_of (modules sys ! i)"
    using assms by (simp add: map_update sum_list_update)
  then show ?thesis using le by (simp add: total_committed_def)
qed

lemma total_committed_fields [simp]:
  "total_committed (sys\<lparr>manager := mgr\<rparr>) = total_committed sys"
  "total_committed (sys\<lparr>os_calls := tr\<rparr>) = total_committed sys"
  by (simp_all add: total_committed_def)

lemma live_moduleD:
  "live_module sys i = Some nm \<Longrightarrow> i < length (modules sys) \<and> modules sys ! i = Some nm"
  by (simp add: live_module_def split: if_splits)

lemma live_module_bound:
  assumes "live_module sys i = Some nm"
  shows "unat (committed_code_space nm) \<le> total_committed sys"
proof -
  note l = live_moduleD [OF assms]
  have "committed_of (modules sys ! i) \<in> set (map committed_of (modules sys))"
    using l by (intro nth_mem [of i "modules sys", THEN imageI, of committed_of, folded set_map]) simp
  then have "committed_of (modules sys ! i) \<le> sum_list (map committed_of (modules sys))"
    by (intro member_le_sum_list) simp_all
  then show ?thesis using l by (simp add: total_committed_def committed_of_def)
qed

lemma replace_module_budget:
  assumes "live_module sys i = Some nm"
    and "committed_of m + remaining mgr = unat (committed_code_space nm) + remaining (manager sys)"
  shows "budget (sys\<lparr>manager := mgr, modules := (modules sys)[i := m], os_calls := tr\<rparr>) = budget sys"
proof -
  note l = live_moduleD [OF assms(1)]
  have "total_committed (sys\<lparr>modules := (modules sys)[i := m]\<rparr>) + unat (committed_code_space nm)
       = total_committed sys + committed_of m"
    using total_committed_update [of i sys m] l by (simp add: committed_of_def)
  then show ?thesis using assms(2) by (simp add: budget_def total_committed_def)
qed

lemma step_budget:
  assumes "step cfg env ev sys = Inr sys'" and "budget sys < 2 ^ 64"
  shows "budget sys' = budget sys"
proof (cases ev)
  case (NewNativeModule_event est nf ni crm uth)
  show ?thesis
  proof (cases "NewNativeModule cfg env (length (modules sys)) est nf ni crm uth
                  (manager sys, os_calls sys)")
    case (Inl f)
    then show ?thesis using assms(1) NewNativeModule_event by simp
  next
    case (Inr r)
    obtain nm mgr tr where r: "r = (nm, mgr, tr)" by (cases r)
    have s: "sys' = sys\<lparr>manager := mgr, modules := modules sys @ [Some nm], os_calls := tr\<rparr>"
      using assms(1) NewNativeModule_event Inr r by simp
    have "unat (committed_code_space nm) + remaining mgr = remaining (manager sys)"
      using NewNativeModule_budget [of cfg env _ est nf ni crm uth "manager sys" "os_calls sys" nm mgr tr]
        Inr r by simp
    then show ?thesis using s by (simp add: budget_def total_committed_def committed_of_def)
  qed
next
  case (AddOwnedCode_event i args)
  show ?thesis
  proof (cases "live_module sys i")
    case None
    then show ?thesis using assms(1) AddOwnedCode_event by simp
  next
    case (Some nm)
    have b: "unat (committed_code_space nm) + remaining (manager sys) < 2 ^ 64"
      using live_module_bound [OF Some] assms(2) by (simp add: budget_def)
    show ?thesis
    proof (cases "AddOwnedCode cfg env i args (nm, manager sys, os_calls sys)")
      case (Inl f)
      then show ?thesis using assms(1) AddOwnedCode_event Some by simp
    next
      case (Inr r)
      obtain code nm' mgr tr where r: "r = (code, nm', mgr, tr)" by (cases r)
      have s: "sys' = sys\<lparr>manager := mgr, modules := (modules sys)[i := Some nm'], os_calls := tr\<rparr>"
        using assms(1) AddOwnedCode_event Some Inr r by simp
      have "unat (committed_code_space nm') + remaining mgr
          = unat (committed_code_space nm) + remaining (manager sys)"
        using AddOwnedCode_budget [of cfg env i args nm "manager sys" "os_calls sys" code nm' mgr tr]
          Inr r b by simp
      then show ?thesis unfolding s
        by (intro replace_module_budget [OF Some]) (simp add: committed_of_def)
    qed
  qed
next
  case (SetExecutable_event i x)
  show ?thesis
  proof (cases "live_module sys i")
    case None
    then show ?thesis using assms(1) SetExecutable_event by simp
  next
    case (Some nm)
    obtain ok nm' tr where r: "SetExecutable cfg env x (nm, os_calls sys) = (ok, nm', tr)"
      by (cases "SetExecutable cfg env x (nm, os_calls sys)")
    have s: "sys' = sys\<lparr>manager := manager sys, modules := (modules sys)[i := Some nm'],
                        os_calls := tr\<rparr>"
      using assms(1) SetExecutable_event Some r by simp
    show ?thesis unfolding s
      using SetExecutable_committed [OF r]
      by (intro replace_module_budget [OF Some]) (simp add: committed_of_def)
  qed
next
  case (DisableTrapHandler_event i)
  show ?thesis
  proof (cases "live_module sys i")
    case None
    then show ?thesis using assms(1) DisableTrapHandler_event by simp
  next
    case (Some nm)
    have "sys' = sys\<lparr>modules := (modules sys)[i := Some (DisableTrapHandler nm)]\<rparr>"
      using assms(1) DisableTrapHandler_event Some by simp
    then have s: "sys' = sys\<lparr>manager := manager sys,
                        modules := (modules sys)[i := Some (DisableTrapHandler nm)],
                        os_calls := os_calls sys\<rparr>"
      by simp
    show ?thesis unfolding s
      by (intro replace_module_budget [OF Some]) (simp add: committed_of_def)
  qed
next
  case (ScopeEnter_event i)
  show ?thesis
  proof (cases "live_module sys i")
    case None
    then show ?thesis using assms(1) ScopeEnter_event by simp
  next
    case (Some nm)
    show ?thesis
    proof (cases "NativeModuleModificationScope_enter cfg env (Some nm, os_calls sys)")
      case (Inl f)
      then show ?thesis using assms(1) ScopeEnter_event Some
        by (simp del: NativeModuleModificationScope_enter.simps)
    next
      case (Inr r)
      obtain nm' tr where r: "r = (nm', tr)" by (cases r)
      have s: "sys' = sys\<lparr>manager := manager sys, modules := (modules sys)[i := nm'],
                          os_calls := tr\<rparr>"
        using assms(1) ScopeEnter_event Some Inr r
        by (simp del: NativeModuleModificationScope_enter.simps)
      show ?thesis unfolding s
        using scope_enter_committed [of cfg env nm "os_calls sys" nm' tr] Inr r
        by (intro replace_module_budget [OF Some]) simp
    qed
  qed
next
  case (ScopeExit_event i)
  show ?thesis
  proof (cases "live_module sys i")
    case None
    then show ?thesis using assms(1) ScopeExit_event by simp
  next
    case (Some nm)
    show ?thesis
    proof (cases "NativeModuleModificationScope_exit cfg env (Some nm, os_calls sys)")
      case (Inl f)
      then show ?thesis using assms(1) ScopeExit_event Some
        by (simp del: NativeModuleModificationScope_exit.simps)
    next
      case (Inr r)
      obtain nm' tr where r: "r = (nm', tr)" by (cases r)
      have s: "sys' = sys\<lparr>manager := manager sys, modules := (modules sys)[i := nm'],
                          os_calls := tr\<rparr>"
        using assms(1) ScopeExit_event Some Inr r
        by (simp del: NativeModuleModificationScope_exit.simps)
      show ?thesis unfolding s
        using scope_exit_committed [of cfg env nm "os_calls sys" nm' tr] Inr r
        by (intro replace_module_budget [OF Some]) simp
    qed
  qed
next
  case (Destroy_event i)
  show ?thesis
  proof (cases "live_module sys i")
    case None
    then show ?thesis using assms(1) Destroy_event by simp
  next
    case (Some nm)
    have b: "unat (committed_code_space nm) + remaining (manager sys) < 2 ^ 64"
      using live_module_bound [OF Some] assms(2) by (simp add: budget_def)
    obtain nm' mgr tr where r: "FreeNativeModule nm (manager sys, os_calls sys) = (nm', mgr, tr)"
      by (cases "FreeNativeModule nm (manager sys, os_calls sys)")
    have s: "sys' = sys\<lparr>manager := mgr, modules := (modules sys)[i := None], os_calls := tr\<rparr>"
      using assms(1) Destroy_event Some r by simp
    show ?thesis unfolding s
      using FreeNativeModule_budget [OF r b]
      by (intro replace_module_budget [OF Some]) (simp add: committed_of_def)
  qed
qed

lemma run_budget:
  assumes "run cfg env evs sys = Inr sys'" and "budget sys < 2 ^ 64"
  shows "budget sys' = budget sys"
  using assms
proof (induction evs arbitrary: sys)
  case Nil
  then show ?case by simp
next
  case (Cons ev evs)
  show ?case
  proof (cases "step cfg env ev sys")
    case (Inl f)
    then show ?thesis using Cons.prems(1) by simp
  next
    case (Inr sys1)
    have b: "budget sys1 = budget sys" using Inr Cons.prems(2) by (rule step_budget)
    have "run cfg env evs sys1 = Inr sys'" using Cons.prems(1) Inr by simp
    then have "budget sys' = budget sys1" using b Cons.prems(2) by (intro Cons.IH) simp_all
    then show ?thesis using b by simp
  qed
qed

lemma initial_budget: "budget (initial_system max_committed) = unat max_committed"
  by (simp add: budget_def initial_system_def total_committed_def WasmCodeManager_ctor_def)

text \<open>
  C1. Budget conservation. In every state that a manager created with the cap
  \<open>max_committed\<close> reaches by creating modules, adding code, changing permissions,
  disabling trap handlers, opening and closing modification scopes and destroying
  modules, the committed bytes of the live modules and the remaining budget add up to
  the cap. In such a state a successful \<open>Commit\<close> debits the budget by exactly its
  size, \<open>AllocateForCode\<close> moves exactly what it debits to the module's committed
  bytes, whether it succeeds or not, and \<open>FreeNativeModule\<close> credits the module's
  committed bytes back. An event is a whole call: the state between the debit of
  \<open>Commit\<close> and the credit to the module is not a state of this system.
\<close>

theorem budget_conservation:
  assumes "run cfg env evs (initial_system max_committed) = Inr sys"
  shows "total_committed sys + unat (remaining_uncommitted_code_space (manager sys))
           = unat max_committed
    \<and> (\<forall>start_addr sz mgr' tr'.
          Commit cfg env start_addr sz (manager sys, os_calls sys) = (True, mgr', tr')
          \<longrightarrow> unat (remaining_uncommitted_code_space mgr') + unat sz
                = unat (remaining_uncommitted_code_space (manager sys)))
    \<and> (\<forall>i nm sz a nm' mgr' tr'.
          live_module sys i = Some nm
          \<and> AllocateForCode cfg env i sz (nm, manager sys, os_calls sys) = (a, nm', mgr', tr')
          \<longrightarrow> unat (committed_code_space nm') + unat (remaining_uncommitted_code_space mgr')
                = unat (committed_code_space nm)
                  + unat (remaining_uncommitted_code_space (manager sys)))
    \<and> (\<forall>i nm nm' mgr' tr'.
          live_module sys i = Some nm
          \<and> FreeNativeModule nm (manager sys, os_calls sys) = (nm', mgr', tr')
          \<longrightarrow> unat (remaining_uncommitted_code_space mgr')
                = unat (remaining_uncommitted_code_space (manager sys))
                  + unat (committed_code_space nm))"
proof -
  have lt: "budget (initial_system max_committed) < 2 ^ 64"
  proof -
    have "unat max_committed < 2 ^ LENGTH(64)" by (rule unsigned_less)
    then show ?thesis by (simp add: initial_budget)
  qed
  have b: "budget sys = unat max_committed"
    using run_budget [OF assms lt] by (simp add: initial_budget)
  then have inv: "total_committed sys + unat (remaining_uncommitted_code_space (manager sys))
           = unat max_committed"
    by (simp add: budget_def)
  have bound: "budget sys < 2 ^ 64" using lt b by (simp add: initial_budget)
  have live: "unat (committed_code_space nm) + unat (remaining_uncommitted_code_space (manager sys))
      < 2 ^ 64" if "live_module sys i = Some nm" for i nm
    using live_module_bound [OF that] bound by (simp add: budget_def)
  have commit: "unat (remaining_uncommitted_code_space mgr') + unat sz
                = unat (remaining_uncommitted_code_space (manager sys))"
    if "Commit cfg env start_addr sz (manager sys, os_calls sys) = (True, mgr', tr')"
    for start_addr sz mgr' tr'
    using Commit_budget [OF that] by simp
  have alloc: "unat (committed_code_space nm') + unat (remaining_uncommitted_code_space mgr')
                = unat (committed_code_space nm)
                  + unat (remaining_uncommitted_code_space (manager sys))"
    if "live_module sys i = Some nm
          \<and> AllocateForCode cfg env i sz (nm, manager sys, os_calls sys) = (a, nm', mgr', tr')"
    for i nm sz a nm' mgr' tr'
    using AllocateForCode_budget [of cfg env i sz nm "manager sys" "os_calls sys" a nm' mgr' tr']
      live [of i nm] that by simp
  have free: "unat (remaining_uncommitted_code_space mgr')
                = unat (remaining_uncommitted_code_space (manager sys))
                  + unat (committed_code_space nm)"
    if "live_module sys i = Some nm
          \<and> FreeNativeModule nm (manager sys, os_calls sys) = (nm', mgr', tr')"
    for i nm nm' mgr' tr'
    using FreeNativeModule_budget [of nm "manager sys" "os_calls sys" nm' mgr' tr']
      live [of i nm] that by simp
  show ?thesis
    using inv commit alloc free by blast
qed

theorem budget_conservation_witness:
  "map_sum id (\<lambda>s. (remaining_uncommitted_code_space (manager s), map committed_of (modules s)))
     (run example_platform permissive_environment
        [NewNativeModule_event 65536 2 0 False False,
         AddOwnedCode_event 0 (code_object 0 5000 kFunction)]
        (initial_system 16384)) = Inr (8192, [8192])
   \<and> (case run example_platform permissive_environment
        [NewNativeModule_event 65536 2 0 False False,
         AddOwnedCode_event 0 (code_object 0 5000 kFunction)]
        (initial_system 16384) of
         Inl f \<Rightarrow> False
       | Inr sys \<Rightarrow>
           total_committed sys + unat (remaining_uncommitted_code_space (manager sys)) = 16384
           \<and> (case live_module sys 0 of
                 None \<Rightarrow> False
               | Some nm \<Rightarrow>
                   (case AllocateForCode example_platform permissive_environment 0 6000
                           (nm, manager sys, os_calls sys) of
                      (a, nm', mgr', tr') \<Rightarrow>
                        unat (committed_code_space nm') + unat (remaining_uncommitted_code_space mgr')
                          = unat (committed_code_space nm)
                            + unat (remaining_uncommitted_code_space (manager sys)))
                   \<and> (case FreeNativeModule nm (manager sys, os_calls sys) of
                        (nm', mgr', tr') \<Rightarrow>
                          unat (remaining_uncommitted_code_space mgr')
                            = unat (remaining_uncommitted_code_space (manager sys))
                              + unat (committed_code_space nm)))
           \<and> (case Commit example_platform permissive_environment 1056768 4096
                       (manager sys, os_calls sys) of
                 (ok, mgr', tr') \<Rightarrow>
                   ok \<and> unat (remaining_uncommitted_code_space mgr') + unat (4096 :: size_t)
                          = unat (remaining_uncommitted_code_space (manager sys))))
   \<and> map_sum id (\<lambda>s. (remaining_uncommitted_code_space (manager s), map committed_of (modules s)))
     (run example_platform permissive_environment
        [NewNativeModule_event 65536 2 0 False False,
         AddOwnedCode_event 0 (code_object 0 5000 kFunction),
         Destroy_event 0]
        (initial_system 16384)) = Inr (16384, [0])"
proof -
  let ?evs = "[NewNativeModule_event 65536 2 0 False False,
         AddOwnedCode_event 0 (code_object 0 5000 kFunction)]"
  let ?run = "run example_platform permissive_environment ?evs (initial_system 16384)"
  have e1: "map_sum id (\<lambda>s. (remaining_uncommitted_code_space (manager s), map committed_of (modules s)))
     ?run = Inr (8192, [8192])"
    by code_simp
  have e2: "map_sum id (\<lambda>s. (remaining_uncommitted_code_space (manager s), map committed_of (modules s)))
     (run example_platform permissive_environment
        [NewNativeModule_event 65536 2 0 False False,
         AddOwnedCode_event 0 (code_object 0 5000 kFunction),
         Destroy_event 0]
        (initial_system 16384)) = Inr (16384, [0])"
    by code_simp
  have e3: "map_sum id (\<lambda>s. live_module s 0 \<noteq> None) ?run = Inr True"
    by code_simp
  have e4: "map_sum id (\<lambda>s. fst (Commit example_platform permissive_environment 1056768 4096
                                    (manager s, os_calls s))) ?run = Inr True"
    by code_simp
  obtain sys where r: "?run = Inr sys"
    using e1 by (cases ?run) auto
  obtain nm where l: "live_module sys 0 = Some nm"
    using e3 r by auto
  obtain a nm1 mgr1 tr1 where al: "AllocateForCode example_platform permissive_environment 0 6000
                           (nm, manager sys, os_calls sys) = (a, nm1, mgr1, tr1)"
    by (cases "AllocateForCode example_platform permissive_environment 0 6000
                           (nm, manager sys, os_calls sys)")
  obtain nm2 mgr2 tr2 where fr: "FreeNativeModule nm (manager sys, os_calls sys) = (nm2, mgr2, tr2)"
    by (cases "FreeNativeModule nm (manager sys, os_calls sys)")
  obtain mgr3 tr3 where cm: "Commit example_platform permissive_environment 1056768 4096
                       (manager sys, os_calls sys) = (True, mgr3, tr3)"
    using e4 r
    by (cases "Commit example_platform permissive_environment 1056768 4096
                       (manager sys, os_calls sys)") auto
  note t = budget_conservation [OF r]
  have t1: "total_committed sys + unat (remaining_uncommitted_code_space (manager sys)) = 16384"
    using t by simp
  have t2: "unat (committed_code_space nm1) + unat (remaining_uncommitted_code_space mgr1)
                          = unat (committed_code_space nm)
                            + unat (remaining_uncommitted_code_space (manager sys))"
    using t l al by blast
  have t3: "unat (remaining_uncommitted_code_space mgr2)
                            = unat (remaining_uncommitted_code_space (manager sys))
                              + unat (committed_code_space nm)"
    using t l fr by blast
  have t4: "unat (remaining_uncommitted_code_space mgr3) + unat (4096 :: size_t)
                          = unat (remaining_uncommitted_code_space (manager sys))"
    using t cm by blast
  have mid: "case ?run of
         Inl f \<Rightarrow> False
       | Inr sys \<Rightarrow>
           total_committed sys + unat (remaining_uncommitted_code_space (manager sys)) = 16384
           \<and> (case live_module sys 0 of
                 None \<Rightarrow> False
               | Some nm \<Rightarrow>
                   (case AllocateForCode example_platform permissive_environment 0 6000
                           (nm, manager sys, os_calls sys) of
                      (a, nm', mgr', tr') \<Rightarrow>
                        unat (committed_code_space nm') + unat (remaining_uncommitted_code_space mgr')
                          = unat (committed_code_space nm)
                            + unat (remaining_uncommitted_code_space (manager sys)))
                   \<and> (case FreeNativeModule nm (manager sys, os_calls sys) of
                        (nm', mgr', tr') \<Rightarrow>
                          unat (remaining_uncommitted_code_space mgr')
                            = unat (remaining_uncommitted_code_space (manager sys))
                              + unat (committed_code_space nm)))
           \<and> (case Commit example_platform permissive_environment 1056768 4096
                       (manager sys, os_calls sys) of
                 (ok, mgr', tr') \<Rightarrow>
                   ok \<and> unat (remaining_uncommitted_code_space mgr') + unat (4096 :: size_t)
                          = unat (remaining_uncommitted_code_space (manager sys)))"
    unfolding r sum.case l option.case al fr cm prod.case
    using t1 t2 t3 t4 by (intro conjI TrueI)
  show ?thesis
    by (intro conjI e1 mid e2)
qed

end
